theory Spec2Isabelle
  imports Main "HOL-Library.Sublist"
begin

section \<open>Text primitives of the Python source\<close>

text \<open>
  Catalog text is modelled as \<open>string\<close>, one \<open>char\<close> per code point, for ASCII text
  (code points below 128). On that range the character classes below are the ones
  Python uses: \<open>str.strip\<close> and the regular expression class \<open>\s\<close> accept the code
  points 9 to 13, 28 to 31 and 32; \<open>[A-Z]\<close> and \<open>\d\<close> are the ASCII capitals and
  digits; \<open>str.upper\<close> and \<open>str.lower\<close> exchange \<open>a..z\<close> and \<open>A..Z\<close> and leave every
  other character alone.
\<close>

definition is_space :: "char \<Rightarrow> bool" where
  "is_space c = (c \<in> set [CHR 0x09, CHR 0x0A, CHR 0x0B, CHR 0x0C, CHR 0x0D,
                            CHR 0x1C, CHR 0x1D, CHR 0x1E, CHR 0x1F, CHR '' ''])"

definition is_upper :: "char \<Rightarrow> bool" where
  "is_upper c = (c \<in> set ''ABCDEFGHIJKLMNOPQRSTUVWXYZ'')"

definition is_digit :: "char \<Rightarrow> bool" where
  "is_digit c = (c \<in> set ''0123456789'')"

definition upper_char :: "char \<Rightarrow> char" where
  "upper_char c =
     (case map_of (zip ''abcdefghijklmnopqrstuvwxyz'' ''ABCDEFGHIJKLMNOPQRSTUVWXYZ'') c of
        Some u \<Rightarrow> u | None \<Rightarrow> c)"

definition lower_char :: "char \<Rightarrow> char" where
  "lower_char c =
     (case map_of (zip ''ABCDEFGHIJKLMNOPQRSTUVWXYZ'' ''abcdefghijklmnopqrstuvwxyz'') c of
        Some l \<Rightarrow> l | None \<Rightarrow> c)"

text \<open>\<open>s.upper()\<close> and \<open>s.lower()\<close>.\<close>

definition upper :: "string \<Rightarrow> string" where
  "upper s = map upper_char s"

definition lower :: "string \<Rightarrow> string" where
  "lower s = map lower_char s"

text \<open>\<open>s.strip()\<close>: whitespace removed at both ends.\<close>

definition strip :: "string \<Rightarrow> string" where
  "strip s = rev (dropWhile is_space (rev (dropWhile is_space s)))"

text \<open>\<open>p in s\<close> on two strings: \<open>p\<close> occurs in \<open>s\<close> as a contiguous substring.\<close>

fun contains :: "string \<Rightarrow> string \<Rightarrow> bool" where
  "contains [] p = (p = [])"
| "contains (c # cs) p = (prefix p (c # cs) \<or> contains cs p)"

text \<open>\<open>text.split('\n')\<close>: always at least one piece, the separators dropped.\<close>

fun split_lines :: "string \<Rightarrow> string list" where
  "split_lines [] = [[]]"
| "split_lines (c # cs) =
     (if c = CHR 0x0A then [] # split_lines cs
      else (case split_lines cs of [] \<Rightarrow> [[c]] | l # ls \<Rightarrow> (c # l) # ls))"

text \<open>\<open>s.split(', ')\<close>: pieces between the occurrences of a comma followed by a space,
  scanned from the left.\<close>

fun split_comma_space :: "string \<Rightarrow> string list" where
  "split_comma_space [] = [[]]"
| "split_comma_space [c] = [[c]]"
| "split_comma_space (c # d # cs) =
     (if c = CHR '','' \<and> d = CHR '' '' then [] # split_comma_space cs
      else (case split_comma_space (d # cs) of [] \<Rightarrow> [[c]] | l # ls \<Rightarrow> (c # l) # ls))"

lemma length_dropWhile_less [termination_simp]:
  "length (dropWhile P xs) < Suc (length xs)"
  by (simp add: le_imp_less_Suc length_dropWhile_le)

text \<open>\<open>re.sub(r'\s+', ' ', s)\<close>: every maximal run of whitespace becomes one space.\<close>

fun collapse_ws :: "string \<Rightarrow> string" where
  "collapse_ws [] = []"
| "collapse_ws (c # cs) =
     (if is_space c then CHR '' '' # collapse_ws (dropWhile is_space cs)
      else c # collapse_ws cs)"

section \<open>Regular expressions of the source\<close>

text \<open>
  The course-code pattern, anchored at the start of \<open>s\<close>: three capitals, whitespace,
  four digits and an optional capital, all greedy. \<open>need_ws\<close> is \<open>True\<close> for
  \<open>[A-Z]{3}\s+\d{4}[A-Z]?\<close> (the segmenter) and \<open>False\<close> for
  \<open>[A-Z]{3}\s*\d{4}[A-Z]?\<close> (the prerequisite extractor). Whitespace, digits and
  capitals are disjoint, so backtracking finds no other match; the result is the
  matched text.
\<close>

definition code_at :: "bool \<Rightarrow> string \<Rightarrow> string option" where
  "code_at need_ws s =
     (let l = take 3 s; r1 = drop 3 s;
          ws = takeWhile is_space r1; r2 = dropWhile is_space r1;
          d = take 4 r2; r3 = drop 4 r2;
          suf = (case r3 of [] \<Rightarrow> [] | c # _ \<Rightarrow> if is_upper c then [c] else [])
      in if length l = 3 \<and> list_all is_upper l \<and> (need_ws \<longrightarrow> ws \<noteq> []) \<and>
            length d = 4 \<and> list_all is_digit d
         then Some (l @ ws @ d @ suf) else None)"

text \<open>
  The major-marker pattern
  \<open>^(EE|CpE|EE2|CpE1|EE3)(,\s*(EE|CpE|EE2|CpE1|EE3))*\s*$\<close> under \<open>re.match\<close>.
  The alternation backtracks, so the pattern matches when some choice of tags parses the
  whole line; \<open>majors_tail\<close> is the part after one tag.
\<close>

definition MAJOR_TAGS :: "string list" where
  "MAJOR_TAGS = [''EE'', ''CpE'', ''EE2'', ''CpE1'', ''EE3'']"

function majors_tail :: "string \<Rightarrow> bool" where
  "majors_tail s = (list_all is_space s \<or>
     (case s of [] \<Rightarrow> False
      | c # r \<Rightarrow> c = CHR '','' \<and>
          (\<exists>tag \<in> set MAJOR_TAGS. prefix tag (dropWhile is_space r) \<and>
              majors_tail (drop (length tag) (dropWhile is_space r)))))"
  by pat_completeness auto
termination
  by (relation "measure length") (auto intro: less_imp_diff_less length_dropWhile_less)

definition match_majors :: "string \<Rightarrow> bool" where
  "match_majors s =
     (\<exists>tag \<in> set MAJOR_TAGS. prefix tag s \<and> majors_tail (drop (length tag) s))"

section \<open>Record segmenter: \<open>parse_courses\<close>\<close>

record course =
  course_code :: string
  full_description :: string
  majors :: string

text \<open>
  The loop state of \<open>parse_courses\<close>: the committed list, the open record (the empty
  dictionary of the source is \<open>None\<close>) and the current majors line.
\<close>

record seg_state =
  courses :: "course list"
  current_course :: "course option"
  current_majors :: string

definition seg_init :: seg_state where
  "seg_init = \<lparr>courses = [], current_course = None, current_majors = []\<rparr>"

definition skip_line :: "string \<Rightarrow> bool" where
  "skip_line l = (l = [] \<or> contains l ''Page'' \<or> contains l ''Dept. of'' \<or>
                  contains l ''Last Updated'')"

text \<open>Committing the open record: only with a non-empty current majors line, which
  then replaces the majors stored when the record was opened.\<close>

definition commit :: "seg_state \<Rightarrow> course list" where
  "commit st =
     (case current_course st of
        None \<Rightarrow> courses st
      | Some c \<Rightarrow> if current_majors st \<noteq> []
                  then courses st @ [c\<lparr>majors := current_majors st\<rparr>]
                  else courses st)"

definition seg_step :: "seg_state \<Rightarrow> string \<Rightarrow> seg_state" where
  "seg_step st raw =
     (let l = strip raw in
      if skip_line l then st
      else if match_majors l then st\<lparr>current_majors := l\<rparr>
      else (case code_at True l of
              Some code \<Rightarrow>
                st\<lparr>courses := commit st,
                   current_course := Some \<lparr>course_code = code, full_description = l,
                                          majors = current_majors st\<rparr>\<rparr>
            | None \<Rightarrow>
                (case current_course st of
                   None \<Rightarrow> st
                 | Some c \<Rightarrow>
                     st\<lparr>current_course :=
                          Some (c\<lparr>full_description := full_description c @ '' '' @ l\<rparr>)\<rparr>)))"

definition parse_lines :: "string list \<Rightarrow> course list" where
  "parse_lines ls = commit (foldl seg_step seg_init ls)"

definition parse_courses :: "string \<Rightarrow> course list" where
  "parse_courses text = parse_lines (split_lines text)"

section \<open>Lookup by major: \<open>search_courses_by_major\<close>\<close>

fun search_courses_by_major :: "course list \<Rightarrow> string \<Rightarrow> course list" where
  "search_courses_by_major [] major = []"
| "search_courses_by_major (c # cs) major =
     (if contains (majors c) major then c # search_courses_by_major cs major
      else search_courses_by_major cs major)"

text \<open>The major tags of a record, as the statistics and the API read them:
  \<open>course['majors'].split(', ')\<close>, each piece stripped.\<close>

definition major_tags :: "course \<Rightarrow> string list" where
  "major_tags c = map strip (split_comma_space (majors c))"

section \<open>Prerequisite extractor: \<open>parse_prerequisites\<close>\<close>

text \<open>A literal of a pattern compiled with \<open>re.IGNORECASE\<close> matches a text of the same
  length that agrees with it up to the case of letters.\<close>

definition ci_prefix :: "string \<Rightarrow> string \<Rightarrow> bool" where
  "ci_prefix p s = (length p \<le> length s \<and> lower (take (length p) s) = lower p)"

text \<open>
  One header pattern \<open>HDR\s*([^.]+)\<close> tried at the start of \<open>t\<close>; the result is group 1.
  \<open>\s*\<close> is greedy and takes the whole run of whitespace, then \<open>[^.]+\<close> takes everything
  up to the next period. When nothing is left for \<open>[^.]+\<close> (a period or the end of the
  text comes next), the matcher backtracks: \<open>\s*\<close> gives back its last character, which
  alone is group 1. With no whitespace to give back there is no match at this position.
\<close>

definition clause_at :: "string \<Rightarrow> string \<Rightarrow> string option" where
  "clause_at hdr t =
     (if ci_prefix hdr t then
        (let r = drop (length hdr) t;
             ws = takeWhile is_space r;
             body = takeWhile (\<lambda>c. c \<noteq> CHR ''.'') (dropWhile is_space r)
         in if body \<noteq> [] then Some body
            else if ws \<noteq> [] then Some [last ws]
            else None)
      else None)"

text \<open>\<open>re.search\<close>: the match at the leftmost position that has one.\<close>

fun search_clause :: "string \<Rightarrow> string \<Rightarrow> string option" where
  "search_clause hdr [] = clause_at hdr []"
| "search_clause hdr (c # cs) =
     (case clause_at hdr (c # cs) of
        Some g \<Rightarrow> Some g
      | None \<Rightarrow> search_clause hdr cs)"

lemma code_at_length [termination_simp]: "code_at b s = Some m \<Longrightarrow> 0 < length m"
  by (auto simp: code_at_def Let_def split: if_splits)

text \<open>\<open>re.findall(r'[A-Z]{3}\s*\d{4}[A-Z]?', s)\<close>: the matches from left to right, each
  search resuming where the previous match ended.\<close>

function find_codes :: "string \<Rightarrow> string list" where
  "find_codes [] = []"
| "find_codes (c # cs) =
     (case code_at False (c # cs) of
        Some m \<Rightarrow> m # find_codes (drop (length m) (c # cs))
      | None \<Rightarrow> find_codes cs)"
  by pat_completeness auto
termination
  by (relation "measure length") (auto dest: code_at_length)

definition pr_patterns :: "string list" where
  "pr_patterns = [''PR:'', ''Prerequisite(s):'', ''Prerequisites:'']"

text \<open>The loop over the patterns: the first pattern that matches supplies the codes, and
  the loop breaks.\<close>

fun prereq_loop :: "string list \<Rightarrow> string \<Rightarrow> string list" where
  "prereq_loop [] description = []"
| "prereq_loop (pattern # rest) description =
     (case search_clause pattern description of
        Some g \<Rightarrow> find_codes (strip g)
      | None \<Rightarrow> prereq_loop rest description)"

definition parse_prerequisites :: "string \<Rightarrow> string list" where
  "parse_prerequisites description = prereq_loop pr_patterns description"

section \<open>Eligibility: \<open>check_prerequisites_met\<close>\<close>

text \<open>\<open>re.sub(r'\s+', ' ', s.strip())\<close>, applied to the prerequisite and to each
  completed entry before the uppercased comparison.\<close>

definition normalize :: "string \<Rightarrow> string" where
  "normalize s = collapse_ws (strip s)"

text \<open>The inner loop: \<open>found\<close> for the normalized prerequisite \<open>np\<close>.\<close>

fun found_in :: "string \<Rightarrow> string list \<Rightarrow> bool" where
  "found_in np [] = False"
| "found_in np (completed # rest) =
     (if upper np = upper (normalize completed) then True else found_in np rest)"

text \<open>The outer loop: the prerequisites not found, in their order.\<close>

fun missing_loop :: "string list \<Rightarrow> string list \<Rightarrow> string list" where
  "missing_loop [] completed_courses = []"
| "missing_loop (prereq # rest) completed_courses =
     (if found_in (normalize prereq) completed_courses
      then missing_loop rest completed_courses
      else prereq # missing_loop rest completed_courses)"

definition check_prerequisites_met :: "string list \<Rightarrow> string list \<Rightarrow> bool \<times> string list" where
  "check_prerequisites_met course_prereqs completed_courses =
     (if course_prereqs = [] then (True, [])
      else (let missing_prereqs = missing_loop course_prereqs completed_courses
            in (length missing_prereqs = 0, missing_prereqs)))"

section \<open>Academic level: \<open>is_graduate_course\<close>\<close>

text \<open>\<open>re.search(r'(\d{4})', s)\<close>: the leftmost four consecutive digits.\<close>

fun search_4digits :: "string \<Rightarrow> string option" where
  "search_4digits [] = None"
| "search_4digits (c # cs) =
     (if length (take 4 (c # cs)) = 4 \<and> list_all is_digit (take 4 (c # cs))
      then Some (take 4 (c # cs)) else search_4digits cs)"

text \<open>\<open>int(s)\<close> on a string of ASCII digits.\<close>

definition digit_val :: "char \<Rightarrow> int" where
  "digit_val c = int (of_char c) - 48"

definition int_of_digits :: "string \<Rightarrow> int" where
  "int_of_digits s = foldl (\<lambda>a c. 10 * a + digit_val c) 0 s"

definition grad_indicators :: "string list" where
  "grad_indicators = [''graduate standing'', ''grad standing'', ''admission to mat degree'',
                      ''graduate student'', ''pr: graduate'', ''prerequisite: graduate'']"

definition is_graduate_course :: "'a course_scheme \<Rightarrow> bool" where
  "is_graduate_course course =
     (if (case search_4digits (course_code course) of
            Some d \<Rightarrow> 5000 \<le> int_of_digits d
          | None \<Rightarrow> False)
      then True
      else list_ex (\<lambda>indicator. contains (lower (full_description course)) indicator)
             grad_indicators)"

definition filter_by_academic_level :: "course list \<Rightarrow> string \<Rightarrow> course list" where
  "filter_by_academic_level cs academic_level =
     (if lower academic_level = ''graduate'' then cs
      else if lower academic_level = ''undergraduate''
           then filter (\<lambda>c. \<not> is_graduate_course c) cs
      else cs)"

section \<open>Eligibility report: \<open>get_eligible_courses\<close>\<close>

record course_info = course +
  prerequisites :: "string list"
  prereqs_met :: bool
  missing_prereqs :: "string list"
  is_graduate :: bool

definition eligibility_entry :: "course \<Rightarrow> string list \<Rightarrow> course_info" where
  "eligibility_entry c completed_courses =
     (let prereqs = parse_prerequisites (full_description c);
          r = check_prerequisites_met prereqs completed_courses
      in \<lparr>course_code = course_code c, full_description = full_description c,
          majors = majors c, prerequisites = prereqs, prereqs_met = fst r,
          missing_prereqs = snd r, is_graduate = is_graduate_course c\<rparr>)"

text \<open>The major filter is skipped when \<open>major\<close> is \<open>None\<close> or the empty string.\<close>

fun eligible_loop :: "course list \<Rightarrow> string list \<Rightarrow> string option \<Rightarrow> course_info list" where
  "eligible_loop [] completed_courses major = []"
| "eligible_loop (c # cs) completed_courses major =
     (if (case major of None \<Rightarrow> False | Some m \<Rightarrow> m \<noteq> [] \<and> \<not> contains (majors c) m)
      then eligible_loop cs completed_courses major
      else eligibility_entry c completed_courses # eligible_loop cs completed_courses major)"

definition get_eligible_courses ::
  "course list \<Rightarrow> string list \<Rightarrow> string option \<Rightarrow> string \<Rightarrow> course_info list" where
  "get_eligible_courses cs completed_courses major academic_level =
     eligible_loop (filter_by_academic_level cs academic_level) completed_courses major"

section \<open>Dependency graph: \<open>create_course_graph\<close> and \<open>get_course_graph_by_major\<close>\<close>

text \<open>Nodes and edges are the dictionaries the source appends to the lists
  \<open>graph["nodes"]\<close> and \<open>graph["edges"]\<close>; the field names carry a prefix where the
  key of the source is taken already.\<close>

record node =
  n_id :: string
  n_label :: string
  n_title :: string
  n_majors :: "string list"
  n_prerequisites :: "string list"
  n_is_graduate :: bool
  n_level :: int
  n_group :: string

record edge =
  e_from :: string
  e_to :: string
  arrows :: string

record graph =
  nodes :: "node list"
  edges :: "edge list"

text \<open>\<open>int(number_match.group(1)) if number_match else 4000\<close>.\<close>

definition course_number :: "string \<Rightarrow> int" where
  "course_number code =
     (case search_4digits code of Some d \<Rightarrow> int_of_digits d | None \<Rightarrow> 4000)"

definition course_node :: "course \<Rightarrow> node" where
  "course_node c =
     \<lparr>n_id = course_code c, n_label = course_code c,
      n_title = take 200 (full_description c) @ ''...'',
      n_majors = split_comma_space (majors c),
      n_prerequisites = parse_prerequisites (full_description c),
      n_is_graduate = is_graduate_course c,
      n_level = course_number (course_code c),
      n_group = (if is_graduate_course c then ''graduate'' else ''undergraduate'')\<rparr>"

definition prereq_node :: "string \<Rightarrow> course \<Rightarrow> node" where
  "prereq_node prereq pc =
     \<lparr>n_id = prereq, n_label = prereq,
      n_title = take 200 (full_description pc) @ ''...'',
      n_majors = split_comma_space (majors pc),
      n_prerequisites = parse_prerequisites (full_description pc),
      n_is_graduate = is_graduate_course pc,
      n_level = course_number prereq,
      n_group = ''prerequisite''\<rparr>"

definition mk_edge :: "string \<Rightarrow> string \<Rightarrow> edge" where
  "mk_edge prereq code = \<lparr>e_from = prereq, e_to = code, arrows = ''to''\<rparr>"

text \<open>The edge loops of \<open>create_course_graph\<close>: one edge for every extracted
  prerequisite that is the code of some course.\<close>

fun prereq_edges :: "string set \<Rightarrow> string \<Rightarrow> string list \<Rightarrow> edge list" where
  "prereq_edges course_codes code [] = []"
| "prereq_edges course_codes code (prereq # rest) =
     (if prereq \<in> course_codes then mk_edge prereq code # prereq_edges course_codes code rest
      else prereq_edges course_codes code rest)"

fun all_edges :: "string set \<Rightarrow> course list \<Rightarrow> edge list" where
  "all_edges course_codes [] = []"
| "all_edges course_codes (c # cs) =
     prereq_edges course_codes (course_code c) (parse_prerequisites (full_description c))
     @ all_edges course_codes cs"

definition create_course_graph :: "course list \<Rightarrow> graph" where
  "create_course_graph cs =
     \<lparr>nodes = map course_node cs,
      edges = all_edges (set (map course_code cs)) cs\<rparr>"

text \<open>The state of the edge loops of \<open>get_course_graph_by_major\<close>: the graph under
  construction and the set \<open>filtered_codes\<close>, which grows with every synthesized
  node.\<close>

record gstate =
  g_nodes :: "node list"
  g_edges :: "edge list"
  filtered_codes :: "string set"

definition prereq_step :: "course list \<Rightarrow> string \<Rightarrow> gstate \<Rightarrow> string \<Rightarrow> gstate" where
  "prereq_step all_courses code st prereq =
     (if prereq \<in> set (map course_code all_courses) then
        (let st1 = st\<lparr>g_edges := g_edges st @ [mk_edge prereq code]\<rparr> in
         if prereq \<notin> filtered_codes st1 then
           (case find (\<lambda>c. course_code c = prereq) all_courses of
              Some prereq_course \<Rightarrow>
                st1\<lparr>g_nodes := g_nodes st1 @ [prereq_node prereq prereq_course],
                    filtered_codes := insert prereq (filtered_codes st1)\<rparr>
            | None \<Rightarrow> st1)
         else st1)
      else st)"

definition course_step :: "course list \<Rightarrow> gstate \<Rightarrow> course \<Rightarrow> gstate" where
  "course_step all_courses st c =
     foldl (prereq_step all_courses (course_code c)) st
       (parse_prerequisites (full_description c))"

definition get_course_graph_by_major :: "course list \<Rightarrow> string \<Rightarrow> graph" where
  "get_course_graph_by_major all_courses major =
     (let filtered_courses = search_courses_by_major all_courses major;
          st0 = \<lparr>g_nodes = map course_node filtered_courses, g_edges = [],
                 filtered_codes = set (map course_code filtered_courses)\<rparr>;
          st = foldl (course_step all_courses) st0 filtered_courses
      in \<lparr>nodes = g_nodes st, edges = g_edges st\<rparr>)"

section \<open>The normal form of the specification\<close>

text \<open>
  The specification describes the comparison of the eligibility engine as made after
  collapsing whitespace to single spaces and uppercasing. \<open>spec_normalize\<close> is that
  normal form, written from the specification's words, to be compared with the
  \<open>normalize\<close> of the source, which strips the ends first.
\<close>

definition spec_normalize :: "string \<Rightarrow> string" where
  "spec_normalize s = upper (collapse_ws s)"

section \<open>Lines of the segmenter\<close>

text \<open>
  The branches of the loop of \<open>parse_courses\<close>, as predicates on a raw line: a marker
  line reaches the branch that sets the current majors, a code line the branch that
  closes the open record and opens a new one. \<open>last_marker\<close> is the stripped text of
  the last marker line of a list of lines, empty when there is none.
\<close>

definition marker_line :: "string \<Rightarrow> bool" where
  "marker_line raw = (\<not> skip_line (strip raw) \<and> match_majors (strip raw))"

definition code_line :: "string \<Rightarrow> bool" where
  "code_line raw = (\<not> skip_line (strip raw) \<and> \<not> match_majors (strip raw) \<and>
                    code_at True (strip raw) \<noteq> None)"

definition last_marker :: "string list \<Rightarrow> string" where
  "last_marker ls = foldl (\<lambda>m l. if marker_line l then strip l else m) [] ls"

text \<open>The invariant of the loop: committed records and the current majors line, when
  not empty, carry a text that matched the major-marker pattern.\<close>

definition seg_inv :: "seg_state \<Rightarrow> bool" where
  "seg_inv st = (list_all (\<lambda>c. match_majors (majors c)) (courses st) \<and>
                 (current_majors st = [] \<or> match_majors (current_majors st)))"

section \<open>Invariant of the subset graph\<close>

text \<open>
  The invariant of the edge loops of \<open>get_course_graph_by_major\<close>, for the nodes
  \<open>base\<close> of the filtered courses: \<open>filtered_codes\<close> is the set of node ids; the
  nodes added so far have pairwise distinct ids outside \<open>base\<close>, the group
  \<open>prerequisite\<close>, a code of the full model and an edge leaving them; every edge leaves
  a code of the full model that has a node.
\<close>

definition graph_inv :: "course list \<Rightarrow> node list \<Rightarrow> gstate \<Rightarrow> bool" where
  "graph_inv all_courses base st =
     (filtered_codes st = set (map n_id (g_nodes st)) \<and>
      (\<exists>extra. g_nodes st = base @ extra \<and> distinct (map n_id extra) \<and>
         set (map n_id extra) \<inter> set (map n_id base) = {} \<and>
         (\<forall>n \<in> set extra. n_group n = ''prerequisite'' \<and>
                           n_id n \<in> set (map course_code all_courses) \<and>
                           n_id n \<in> set (map e_from (g_edges st)))) \<and>
      (\<forall>e \<in> set (g_edges st). e_from e \<in> set (map course_code all_courses) \<and>
                              e_from e \<in> filtered_codes st))"

section \<open>Lookup by major\<close>

text \<open>
  Claim C1 (lookup by major). The lookup is to return exactly the records whose set of
  major tags contains the requested tag. The membership test of the source is
  \<open>major in course['majors']\<close> on the marker line itself, a substring test: the text
  below is segmented into one record under the marker \<open>EE2\<close>, whose only major tag is
  \<open>EE2\<close>, and the lookup for the valid tag \<open>EE\<close> returns it.
\<close>

theorem search_courses_by_major_substring:
  "parse_courses ''EE2\<newline>EEL 4750 Signals'' =
     [\<lparr>course_code = ''EEL 4750'', full_description = ''EEL 4750 Signals'', majors = ''EE2''\<rparr>]
   \<and> major_tags \<lparr>course_code = ''EEL 4750'', full_description = ''EEL 4750 Signals'',
                  majors = ''EE2''\<rparr> = [''EE2'']
   \<and> ''EE'' \<in> set MAJOR_TAGS
   \<and> search_courses_by_major (parse_courses ''EE2\<newline>EEL 4750 Signals'') ''EE'' =
     [\<lparr>course_code = ''EEL 4750'', full_description = ''EEL 4750 Signals'', majors = ''EE2''\<rparr>]"
  by code_simp

section \<open>Academic level\<close>

lemma contains_iff: "contains s p \<longleftrightarrow> (\<exists>a b. s = a @ p @ b)"
proof (induction s)
  case Nil
  then show ?case by auto
next
  case (Cons c cs)
  show ?case
  proof
    assume "contains (c # cs) p"
    then consider "prefix p (c # cs)" | "contains cs p" by auto
    then show "\<exists>a b. c # cs = a @ p @ b"
    proof cases
      case 1
      then obtain b where "c # cs = p @ b" by (auto simp: prefix_def)
      then have "c # cs = [] @ p @ b" by simp
      then show ?thesis by blast
    next
      case 2
      with Cons.IH obtain a b where "cs = a @ p @ b" by blast
      then have "c # cs = (c # a) @ p @ b" by simp
      then show ?thesis by blast
    qed
  next
    assume "\<exists>a b. c # cs = a @ p @ b"
    then obtain a b where ab: "c # cs = a @ p @ b" by blast
    show "contains (c # cs) p"
    proof (cases a)
      case Nil
      with ab have "prefix p (c # cs)" by (simp add: prefix_def)
      then show ?thesis by simp
    next
      case (Cons x a')
      with ab have "cs = a' @ p @ b" by simp
      with Cons.IH have "contains cs p" by blast
      then show ?thesis by simp
    qed
  qed
qed

lemma search_4digits_first:
  "list_all (\<lambda>x. \<not> is_digit x) pre \<Longrightarrow> length d = 4 \<Longrightarrow> list_all is_digit d \<Longrightarrow>
   search_4digits (pre @ d @ suf) = Some d"
proof (induction pre)
  case Nil
  then obtain x d' where "d = x # d'" by (cases d) auto
  with Nil show ?case by simp
next
  case (Cons x pre)
  then show ?case by (simp add: list_all_iff) 
qed

text \<open>
  Claim C7 (academic-level classifier). The rules are tried in order. For a code whose
  first digits are a group of four, the record is graduate when that number is at least
  5000; otherwise it is graduate exactly when the lowercased full text contains one of
  the six phrases; otherwise it is undergraduate. So \<open>EEL 5513\<close> is graduate whatever
  the text, and \<open>EEL 3801C\<close> with none of the phrases is not.
\<close>

theorem is_graduate_course_rule:
  "(course_code c = pre @ d @ suf \<and> list_all (\<lambda>x. \<not> is_digit x) pre \<and> length d = 4 \<and>
      list_all is_digit d \<longrightarrow>
      (is_graduate_course c \<longleftrightarrow>
         5000 \<le> int_of_digits d \<or>
         (\<exists>p \<in> set [''graduate standing'', ''grad standing'', ''admission to mat degree'',
                     ''graduate student'', ''pr: graduate'', ''prerequisite: graduate''].
            \<exists>a b. lower (full_description c) = a @ p @ b)))
   \<and> is_graduate_course \<lparr>course_code = ''EEL 5513'', full_description = desc, majors = m\<rparr>
   \<and> ((\<forall>p \<in> set [''graduate standing'', ''grad standing'', ''admission to mat degree'',
                   ''graduate student'', ''pr: graduate'', ''prerequisite: graduate''].
          \<not> (\<exists>a b. lower desc = a @ p @ b)) \<longrightarrow>
        \<not> is_graduate_course \<lparr>course_code = ''EEL 3801C'', full_description = desc, majors = m\<rparr>)"
proof (intro conjI impI)
  assume h: "course_code c = pre @ d @ suf \<and> list_all (\<lambda>x. \<not> is_digit x) pre \<and> length d = 4 \<and>
      list_all is_digit d"
  then have "search_4digits (course_code c) = Some d"
    using search_4digits_first [of pre d suf] by simp
  then show "is_graduate_course c \<longleftrightarrow>
         5000 \<le> int_of_digits d \<or>
         (\<exists>p \<in> set [''graduate standing'', ''grad standing'', ''admission to mat degree'',
                     ''graduate student'', ''pr: graduate'', ''prerequisite: graduate''].
            \<exists>a b. lower (full_description c) = a @ p @ b)"
    by (simp add: is_graduate_course_def grad_indicators_def contains_iff del: contains.simps)
next
  have "search_4digits ''EEL 5513'' = Some ''5513''" by code_simp
  moreover have "5000 \<le> int_of_digits ''5513''" by code_simp
  ultimately show "is_graduate_course \<lparr>course_code = ''EEL 5513'', full_description = desc, majors = m\<rparr>"
    by (simp add: is_graduate_course_def)
next
  assume h: "\<forall>p \<in> set [''graduate standing'', ''grad standing'', ''admission to mat degree'',
                   ''graduate student'', ''pr: graduate'', ''prerequisite: graduate''].
          \<not> (\<exists>a b. lower desc = a @ p @ b)"
  have "search_4digits ''EEL 3801C'' = Some ''3801''" by code_simp
  moreover have "\<not> 5000 \<le> int_of_digits ''3801''" by code_simp
  ultimately show "\<not> is_graduate_course \<lparr>course_code = ''EEL 3801C'', full_description = desc, majors = m\<rparr>"
    using h by (simp add: is_graduate_course_def grad_indicators_def contains_iff del: contains.simps)
qed

theorem is_graduate_course_rule_witness:
  "is_graduate_course \<lparr>course_code = ''EEL 4930'',
      full_description = ''EEL 4930 Topics. PR: Graduate Standing.'', majors = ''EE''\<rparr>
   \<and> \<not> is_graduate_course \<lparr>course_code = ''EEL 3801C'',
      full_description = ''EEL 3801C Computer Organization'', majors = ''EE''\<rparr>"
proof -
  let ?c = "\<lparr>course_code = ''EEL 4930'',
      full_description = ''EEL 4930 Topics. PR: Graduate Standing.'', majors = ''EE''\<rparr>"
  have hyp: "course_code ?c = ''EEL '' @ ''4930'' @ '''' \<and> list_all (\<lambda>x. \<not> is_digit x) ''EEL '' \<and>
      length ''4930'' = 4 \<and> list_all is_digit ''4930''"
    by (simp add: is_digit_def)
  have "lower (full_description ?c) = ''eel 4930 topics. pr: '' @ ''graduate standing'' @ ''.''"
    by code_simp
  then have r: "\<exists>p \<in> set [''graduate standing'', ''grad standing'', ''admission to mat degree'',
                     ''graduate student'', ''pr: graduate'', ''prerequisite: graduate''].
            \<exists>a b. lower (full_description ?c) = a @ p @ b"
    by (metis list.set_intros(1))
  have n: "\<forall>p \<in> set [''graduate standing'', ''grad standing'', ''admission to mat degree'',
                   ''graduate student'', ''pr: graduate'', ''prerequisite: graduate''].
          \<not> (\<exists>a b. lower ''EEL 3801C Computer Organization'' = a @ p @ b)"
    unfolding contains_iff [symmetric] by code_simp
  from is_graduate_course_rule [of ?c "''EEL ''" "''4930''" "''''" "''EEL 3801C Computer Organization''" "''EE''"]
    hyp r n show ?thesis by blast
qed

section \<open>Eligibility\<close>

lemma found_in_iff:
  "found_in np completed \<longleftrightarrow> (\<exists>x \<in> set completed. upper (normalize x) = upper np)"
  by (induction completed) auto

lemma missing_loop_filter:
  "missing_loop ps completed =
     filter (\<lambda>p. \<not> (\<exists>x \<in> set completed. upper (normalize x) = upper (normalize p))) ps"
  by (induction ps) (simp_all add: found_in_iff)

lemma check_prerequisites_met_eq:
  "check_prerequisites_met ps completed =
     (missing_loop ps completed = [], missing_loop ps completed)"
  by (cases ps) (simp_all add: check_prerequisites_met_def Let_def)

lemma eligible_loop_entries:
  "e \<in> set (eligible_loop cs completed major) \<Longrightarrow>
   \<exists>c \<in> set cs. e = eligibility_entry c completed"
  by (induction cs) (auto split: if_splits)

lemma get_eligible_courses_entries:
  "e \<in> set (get_eligible_courses cs completed major level) \<Longrightarrow>
   \<exists>c \<in> set cs. e = eligibility_entry c completed"
  by (auto simp: get_eligible_courses_def filter_by_academic_level_def
      dest!: eligible_loop_entries split: if_splits)

text \<open>
  Claim C2 (eligibility), as amended. For every entry of the eligibility report, the
  prerequisites are the ones extracted from the record's text; a prerequisite is met
  exactly when some completed entry, after stripping leading and trailing whitespace,
  collapsing each run of whitespace to one space and uppercasing, is equal to the
  prerequisite so normalized; the missing prerequisites are the unmet ones in extraction
  order; and the prerequisites are met exactly when none is missing, in particular when
  none was extracted.
\<close>

theorem eligibility_met_iff:
  "\<forall>e \<in> set (get_eligible_courses cs completed major level).
     prerequisites e = parse_prerequisites (full_description e) \<and>
     missing_prereqs e =
       filter (\<lambda>p. \<not> (\<exists>x \<in> set completed.
                        upper (collapse_ws (strip x)) = upper (collapse_ws (strip p))))
         (prerequisites e) \<and>
     prereqs_met e = (missing_prereqs e = []) \<and>
     (prerequisites e = [] \<longrightarrow> prereqs_met e)"
proof
  fix e assume "e \<in> set (get_eligible_courses cs completed major level)"
  then obtain c where "e = eligibility_entry c completed"
    using get_eligible_courses_entries by blast
  then show "prerequisites e = parse_prerequisites (full_description e) \<and>
     missing_prereqs e =
       filter (\<lambda>p. \<not> (\<exists>x \<in> set completed.
                        upper (collapse_ws (strip x)) = upper (collapse_ws (strip p))))
         (prerequisites e) \<and>
     prereqs_met e = (missing_prereqs e = []) \<and>
     (prerequisites e = [] \<longrightarrow> prereqs_met e)"
    by (simp add: eligibility_entry_def Let_def check_prerequisites_met_eq
        missing_loop_filter normalize_def)
qed

text \<open>The report on a record with two prerequisites: \<open>eel  3801c\<close> meets
  \<open>EEL 3801C\<close>, and \<open>EEL 4750C\<close> does not meet \<open>EEL 4750\<close>.\<close>

theorem eligibility_met_iff_witness:
  "missing_prereqs (hd (get_eligible_courses
     [\<lparr>course_code = ''EEL 4768'',
       full_description = ''EEL 4768 Computer Architecture. PR: EEL 3801C, EEL 4750.'',
       majors = ''CpE''\<rparr>]
     [''eel  3801c'', ''EEL 4750C''] None ''undergraduate'')) = [''EEL 4750'']
   \<and> \<not> prereqs_met (hd (get_eligible_courses
     [\<lparr>course_code = ''EEL 4768'',
       full_description = ''EEL 4768 Computer Architecture. PR: EEL 3801C, EEL 4750.'',
       majors = ''CpE''\<rparr>]
     [''eel  3801c'', ''EEL 4750C''] None ''undergraduate''))"
proof -
  let ?cs = "[\<lparr>course_code = ''EEL 4768'',
       full_description = ''EEL 4768 Computer Architecture. PR: EEL 3801C, EEL 4750.'',
       majors = ''CpE''\<rparr>]"
  let ?e = "hd (get_eligible_courses ?cs [''eel  3801c'', ''EEL 4750C''] None ''undergraduate'')"
  have m: "?e \<in> set (get_eligible_courses ?cs [''eel  3801c'', ''EEL 4750C''] None
             ''undergraduate'')"
    by code_simp
  have p: "parse_prerequisites (full_description ?e) = [''EEL 3801C'', ''EEL 4750'']"
    by code_simp
  have f: "filter (\<lambda>p. \<not> (\<exists>x \<in> set [''eel  3801c'', ''EEL 4750C''].
                        upper (collapse_ws (strip x)) = upper (collapse_ws (strip p))))
         [''EEL 3801C'', ''EEL 4750''] = [''EEL 4750'']"
    by code_simp
  from eligibility_met_iff [of ?cs "[''eel  3801c'', ''EEL 4750C'']" None "''undergraduate''"] m
  have "prerequisites ?e = parse_prerequisites (full_description ?e) \<and>
     missing_prereqs ?e =
       filter (\<lambda>p. \<not> (\<exists>x \<in> set [''eel  3801c'', ''EEL 4750C''].
                        upper (collapse_ws (strip x)) = upper (collapse_ws (strip p))))
         (prerequisites ?e) \<and>
     prereqs_met ?e = (missing_prereqs ?e = [])"
    by blast
  with p f show ?thesis by simp
qed

text \<open>
  The claim as stated, without the stripping, fails: the completed entry
  \<open>" EEL 3801C"\<close>, with a leading space, meets the prerequisite \<open>EEL 3801C\<close> in the
  source, although the two differ after collapsing whitespace and uppercasing alone.
\<close>

theorem eligibility_untrimmed_counterexample:
  "get_eligible_courses
      [\<lparr>course_code = ''EEL 4768'',
        full_description = ''EEL 4768 Computer Architecture. PR: EEL 3801C.'',
        majors = ''CpE''\<rparr>]
      ['' EEL 3801C''] None ''undergraduate'' =
   [\<lparr>course_code = ''EEL 4768'',
     full_description = ''EEL 4768 Computer Architecture. PR: EEL 3801C.'',
     majors = ''CpE'', prerequisites = [''EEL 3801C''], prereqs_met = True,
     missing_prereqs = [], is_graduate = False\<rparr>]
   \<and> spec_normalize '' EEL 3801C'' \<noteq> spec_normalize ''EEL 3801C''"
  by code_simp

lemma dropWhile_none: "\<not> list_ex P s \<Longrightarrow> dropWhile P s = s"
  by (cases s) (auto simp: list_ex_iff)

lemma strip_no_space: "\<not> list_ex is_space s \<Longrightarrow> strip s = s"
  by (simp add: strip_def dropWhile_none list_ex_iff)

lemma collapse_no_space: "\<not> list_ex is_space s \<Longrightarrow> collapse_ws s = s"
  by (induction s) auto

lemma collapse_has_space: "list_ex is_space s \<Longrightarrow> CHR '' '' \<in> set (collapse_ws s)"
  by (induction s rule: collapse_ws.induct) auto

lemma upper_char_space: "upper_char c = CHR '' '' \<longleftrightarrow> c = CHR '' ''"
  by (simp add: upper_char_def)

lemma is_space_space: "is_space CHR '' ''"
  by (simp add: is_space_def)

lemma normalize_differs:
  assumes "\<not> list_ex is_space p" "list_ex is_space (strip c)"
  shows "upper (normalize c) \<noteq> upper (normalize p)"
proof -
  have u: "upper_char CHR '' '' = CHR '' ''"
    by (simp add: upper_char_space)
  have "CHR '' '' \<in> set (collapse_ws (strip c))"
    by (rule collapse_has_space [OF assms(2)])
  then have "upper_char CHR '' '' \<in> upper_char ` set (collapse_ws (strip c))"
    by (rule imageI)
  then have in_c: "CHR '' '' \<in> set (upper (normalize c))"
    by (simp only: u upper_def normalize_def set_map)
  have np: "normalize p = p"
    using assms(1) by (simp add: normalize_def strip_no_space collapse_no_space)
  have "CHR '' '' \<notin> set (upper p)"
  proof
    assume "CHR '' '' \<in> set (upper p)"
    then obtain x where x: "x \<in> set p" "upper_char x = CHR '' ''"
      unfolding upper_def set_map by (metis imageE)
    then have "x = CHR '' ''" by (simp only: upper_char_space)
    with x(1) assms(1) show False
      unfolding list_ex_iff using is_space_space by blast
  qed
  with in_c np show ?thesis by metis
qed

text \<open>
  Claim C10 (codes written without a space). The code grammar of the extractor accepts a
  code with no whitespace between prefix and digits and the code is stored as written;
  normalization leaves a string without whitespace unchanged. So a prerequisite without
  whitespace is missing, and the prerequisites unmet, whenever every completed entry has
  whitespace inside (as \<open>EEL 4750\<close> has, in any case of letters).
\<close>

theorem unspaced_prerequisite_missing:
  "(\<not> list_ex is_space p \<and> (\<forall>c \<in> set completed. list_ex is_space (strip c)) \<and>
    e \<in> set (get_eligible_courses cs completed major level) \<and> p \<in> set (prerequisites e)
    \<longrightarrow> p \<in> set (missing_prereqs e) \<and> \<not> prereqs_met e)
   \<and> code_at False ''EEL4750.'' = Some ''EEL4750''
   \<and> parse_prerequisites ''EEL 4930 Topics. PR: EEL4750.'' = [''EEL4750'']
   \<and> normalize ''EEL4750'' = ''EEL4750''"
proof (intro conjI impI)
  assume h: "\<not> list_ex is_space p \<and> (\<forall>c \<in> set completed. list_ex is_space (strip c)) \<and>
    e \<in> set (get_eligible_courses cs completed major level) \<and> p \<in> set (prerequisites e)"
  then obtain c where e: "e = eligibility_entry c completed"
    using get_eligible_courses_entries by blast
  from h have "\<forall>x \<in> set completed. upper (normalize x) \<noteq> upper (normalize p)"
    using normalize_differs by blast
  with h have "p \<in> set (missing_loop (prerequisites e) completed)"
    by (simp add: missing_loop_filter)
  then show "p \<in> set (missing_prereqs e)" "\<not> prereqs_met e"
    by (auto simp: e eligibility_entry_def Let_def check_prerequisites_met_eq)
next
  show "code_at False ''EEL4750.'' = Some ''EEL4750''" by code_simp
  show "parse_prerequisites ''EEL 4930 Topics. PR: EEL4750.'' = [''EEL4750'']" by code_simp
  show "normalize ''EEL4750'' = ''EEL4750''" by code_simp
qed

theorem unspaced_prerequisite_missing_witness:
  "''EEL4750'' \<in> set (missing_prereqs
      \<lparr>course_code = ''EEL 4930'', full_description = ''EEL 4930 Topics. PR: EEL4750.'',
       majors = ''EE'', prerequisites = [''EEL4750''], prereqs_met = False,
       missing_prereqs = [''EEL4750''], is_graduate = False\<rparr>)
   \<and> \<not> prereqs_met
      \<lparr>course_code = ''EEL 4930'', full_description = ''EEL 4930 Topics. PR: EEL4750.'',
       majors = ''EE'', prerequisites = [''EEL4750''], prereqs_met = False,
       missing_prereqs = [''EEL4750''], is_graduate = False\<rparr>
   \<and> get_eligible_courses
       [\<lparr>course_code = ''EEL 4930'', full_description = ''EEL 4930 Topics. PR: EEL4750.'',
         majors = ''EE''\<rparr>] [''EEL 4750'', ''eel  4750 ''] None ''undergraduate'' =
      [\<lparr>course_code = ''EEL 4930'', full_description = ''EEL 4930 Topics. PR: EEL4750.'',
       majors = ''EE'', prerequisites = [''EEL4750''], prereqs_met = False,
       missing_prereqs = [''EEL4750''], is_graduate = False\<rparr>]"
proof -
  let ?cs = "[\<lparr>course_code = ''EEL 4930'',
       full_description = ''EEL 4930 Topics. PR: EEL4750.'', majors = ''EE''\<rparr>]"
  let ?e = "\<lparr>course_code = ''EEL 4930'', full_description = ''EEL 4930 Topics. PR: EEL4750.'',
       majors = ''EE'', prerequisites = [''EEL4750''], prereqs_met = False,
       missing_prereqs = [''EEL4750''], is_graduate = False\<rparr>"
  have ev: "get_eligible_courses ?cs [''EEL 4750'', ''eel  4750 ''] None ''undergraduate'' = [?e]"
    by code_simp
  have h1: "\<not> list_ex is_space ''EEL4750''" by code_simp
  have h2: "\<forall>c \<in> set [''EEL 4750'', ''eel  4750 '']. list_ex is_space (strip c)" by code_simp
  have h3: "?e \<in> set (get_eligible_courses ?cs [''EEL 4750'', ''eel  4750 ''] None
      ''undergraduate'')"
    unfolding ev by simp
  have h4: "''EEL4750'' \<in> set (prerequisites ?e)" by simp
  from unspaced_prerequisite_missing [of "''EEL4750''" "[''EEL 4750'', ''eel  4750 '']" ?e ?cs
      None "''undergraduate''"] h1 h2 h3 h4
  have "''EEL4750'' \<in> set (missing_prereqs ?e) \<and> \<not> prereqs_met ?e" by blast
  with ev show ?thesis by blast
qed

section \<open>Record segmenter\<close>

lemma match_majors_prefix:
  "match_majors l \<Longrightarrow> l \<noteq> [] \<and> (\<exists>tag \<in> set MAJOR_TAGS. prefix tag l)"
  by (auto simp: match_majors_def MAJOR_TAGS_def)

lemma seg_step_marker:
  "marker_line l \<Longrightarrow> seg_step st l = st\<lparr>current_majors := strip l\<rparr>"
  by (simp add: seg_step_def marker_line_def Let_def)

lemma seg_step_code:
  "code_line l \<Longrightarrow> seg_step st l =
     st\<lparr>courses := commit st,
        current_course := Some \<lparr>course_code = the (code_at True (strip l)),
          full_description = strip l, majors = current_majors st\<rparr>\<rparr>"
  by (auto simp: seg_step_def code_line_def Let_def)

lemma seg_step_other:
  assumes "\<not> marker_line l" "\<not> code_line l"
  shows "courses (seg_step st l) = courses st"
    and "current_majors (seg_step st l) = current_majors st"
    and "current_course st = None \<Longrightarrow> current_course (seg_step st l) = None"
    and "current_course st = Some c \<Longrightarrow>
         \<exists>c'. current_course (seg_step st l) = Some c' \<and> course_code c' = course_code c"
  using assms
  by (auto simp: seg_step_def marker_line_def code_line_def Let_def split: option.splits)

lemma commit_extends: "\<exists>ext. commit st = courses st @ ext"
  by (simp add: commit_def split: option.splits)

lemma seg_step_extends: "\<exists>ext. courses (seg_step st l) = courses st @ ext"
proof (cases "marker_line l")
  case True
  then show ?thesis by (simp add: seg_step_marker)
next
  case False
  show ?thesis
  proof (cases "code_line l")
    case True
    then show ?thesis using commit_extends [of st] by (simp add: seg_step_code)
  next
    case False
    with \<open>\<not> marker_line l\<close> show ?thesis by (simp add: seg_step_other)
  qed
qed

lemma foldl_seg_step_extends: "\<exists>ext. courses (foldl seg_step st ls) = courses st @ ext"
proof (induction ls arbitrary: st)
  case Nil
  then show ?case by simp
next
  case (Cons l ls)
  obtain e1 where e1: "courses (seg_step st l) = courses st @ e1"
    using seg_step_extends by blast
  obtain e2 where "courses (foldl seg_step (seg_step st l) ls) = courses (seg_step st l) @ e2"
    using Cons.IH by blast
  with e1 show ?case by simp
qed

lemma parse_from_extends: "\<exists>ext. commit (foldl seg_step st ls) = courses st @ ext"
proof -
  obtain e1 where "courses (foldl seg_step st ls) = courses st @ e1"
    using foldl_seg_step_extends by blast
  moreover obtain e2 where "commit (foldl seg_step st ls) = courses (foldl seg_step st ls) @ e2"
    using commit_extends by blast
  ultimately show ?thesis by simp
qed

lemma current_majors_foldl:
  "current_majors (foldl seg_step st ls) =
     foldl (\<lambda>m l. if marker_line l then strip l else m) (current_majors st) ls"
proof (induction ls arbitrary: st)
  case Nil
  then show ?case by simp
next
  case (Cons l ls)
  have "current_majors (seg_step st l) = (if marker_line l then strip l else current_majors st)"
  proof (cases "marker_line l")
    case True
    then show ?thesis by (simp add: seg_step_marker)
  next
    case False
    then show ?thesis by (cases "code_line l") (simp_all add: seg_step_code seg_step_other)
  qed
  with Cons.IH [of "seg_step st l"] show ?case by simp
qed

lemma commit_inv: "seg_inv st \<Longrightarrow> list_all (\<lambda>c. match_majors (majors c)) (commit st)"
  by (auto simp: seg_inv_def commit_def split: option.splits)

lemma seg_step_inv: "seg_inv st \<Longrightarrow> seg_inv (seg_step st l)"
proof (cases "marker_line l")
  case True
  assume "seg_inv st"
  with True show ?thesis by (simp add: seg_step_marker seg_inv_def marker_line_def)
next
  case False
  assume i: "seg_inv st"
  show ?thesis
  proof (cases "code_line l")
    case True
    with i commit_inv [OF i] show ?thesis by (simp add: seg_step_code seg_inv_def)
  next
    case False
    with \<open>\<not> marker_line l\<close> i show ?thesis by (simp add: seg_inv_def seg_step_other)
  qed
qed

lemma foldl_seg_step_inv: "seg_inv st \<Longrightarrow> seg_inv (foldl seg_step st ls)"
  by (induction ls arbitrary: st) (simp_all add: seg_step_inv)

text \<open>
  Claim C8 (no record without majors). Every record of the catalog model has a
  non-empty majors text, which matched the major-marker pattern and so starts with a
  major tag.
\<close>

theorem parse_courses_majors_nonempty:
  "\<forall>c \<in> set (parse_courses text).
     majors c \<noteq> [] \<and> match_majors (majors c) \<and> (\<exists>tag \<in> set MAJOR_TAGS. prefix tag (majors c))"
proof
  fix c assume c: "c \<in> set (parse_courses text)"
  have "seg_inv seg_init" by (simp add: seg_inv_def seg_init_def)
  then have "list_all (\<lambda>c. match_majors (majors c)) (parse_courses text)"
    unfolding parse_courses_def parse_lines_def by (intro commit_inv foldl_seg_step_inv)
  with c have "match_majors (majors c)" by (simp add: list_all_iff)
  then show "majors c \<noteq> [] \<and> match_majors (majors c) \<and>
      (\<exists>tag \<in> set MAJOR_TAGS. prefix tag (majors c))"
    using match_majors_prefix by blast
qed

theorem parse_courses_majors_nonempty_witness:
  "parse_courses ''EEL 3000 Intro\<newline>Page 1\<newline>EE, CpE\<newline>EEL 4750 Signals\<newline>and systems'' =
     [\<lparr>course_code = ''EEL 3000'', full_description = ''EEL 3000 Intro'', majors = ''EE, CpE''\<rparr>,
      \<lparr>course_code = ''EEL 4750'', full_description = ''EEL 4750 Signals and systems'', majors = ''EE, CpE''\<rparr>]
   \<and> majors \<lparr>course_code = ''EEL 4750'', full_description = ''EEL 4750 Signals and systems'',
              majors = ''EE, CpE''\<rparr> \<noteq> []
   \<and> match_majors ''EE, CpE''"
proof -
  let ?t = "''EEL 3000 Intro\<newline>Page 1\<newline>EE, CpE\<newline>EEL 4750 Signals\<newline>and systems''"
  let ?c = "\<lparr>course_code = ''EEL 4750'', full_description = ''EEL 4750 Signals and systems'',
              majors = ''EE, CpE''\<rparr>"
  have ev: "parse_courses ?t =
     [\<lparr>course_code = ''EEL 3000'', full_description = ''EEL 3000 Intro'', majors = ''EE, CpE''\<rparr>, ?c]"
    by code_simp
  then have "?c \<in> set (parse_courses ?t)" by simp
  with parse_courses_majors_nonempty [of ?t]
  have "majors ?c \<noteq> [] \<and> match_majors (majors ?c)" by blast
  with ev show ?thesis by simp
qed


lemma no_marker_state:
  "\<forall>l \<in> set ls. \<not> marker_line l \<Longrightarrow> courses st = [] \<Longrightarrow> current_majors st = [] \<Longrightarrow>
   courses (foldl seg_step st ls) = [] \<and> current_majors (foldl seg_step st ls) = []"
proof (induction ls arbitrary: st)
  case Nil
  then show ?case by simp
next
  case (Cons l ls)
  have "courses (seg_step st l) = [] \<and> current_majors (seg_step st l) = []"
  proof (cases "code_line l")
    case True
    with Cons.prems show ?thesis by (simp add: seg_step_code commit_def split: option.splits)
  next
    case False
    with Cons.prems show ?thesis by (simp add: seg_step_other)
  qed
  with Cons show ?case by simp
qed

lemma code_line_restart:
  assumes "code_line L" "courses st = []" "current_majors st = []"
  shows "seg_step st L = seg_step seg_init L"
proof -
  have "commit st = []" using assms(2,3) by (simp add: commit_def split: option.splits)
  moreover have "commit seg_init = []" by (simp add: commit_def seg_init_def)
  ultimately show ?thesis
    using assms by (cases st) (simp add: seg_step_code seg_init_def)
qed

text \<open>
  Claim C4 (blocks before any marker), as amended. A block is discarded when no
  major-marker line has been seen by the time it is closed out: everything before a
  course-code line that no marker line precedes contributes nothing to the result, and
  a text without marker lines yields no record.
\<close>

theorem unmarked_blocks_discarded:
  "(split_lines text = pre @ L # rest \<and> (\<forall>l \<in> set pre. \<not> marker_line l) \<and> code_line L
      \<longrightarrow> parse_courses text = parse_lines (L # rest))
   \<and> ((\<forall>l \<in> set (split_lines text). \<not> marker_line l) \<longrightarrow> parse_courses text = [])"
proof (intro conjI impI)
  assume h: "split_lines text = pre @ L # rest \<and> (\<forall>l \<in> set pre. \<not> marker_line l) \<and> code_line L"
  let ?st = "foldl seg_step seg_init pre"
  have "courses ?st = [] \<and> current_majors ?st = []"
    using h by (intro no_marker_state) (simp_all add: seg_init_def)
  with h have "seg_step ?st L = seg_step seg_init L" by (simp add: code_line_restart)
  with h show "parse_courses text = parse_lines (L # rest)"
    by (simp add: parse_courses_def parse_lines_def)
next
  assume h: "\<forall>l \<in> set (split_lines text). \<not> marker_line l"
  let ?st = "foldl seg_step seg_init (split_lines text)"
  have "courses ?st = [] \<and> current_majors ?st = []"
    using h by (intro no_marker_state) (simp_all add: seg_init_def)
  then show "parse_courses text = []"
    by (simp add: parse_courses_def parse_lines_def commit_def split: option.splits)
qed

theorem unmarked_blocks_discarded_witness:
  "parse_courses ''EEL 3000 Intro\<newline>EEL 4750 Signals\<newline>EE\<newline>EEL 4751 Systems'' =
     [\<lparr>course_code = ''EEL 4750'', full_description = ''EEL 4750 Signals'', majors = ''EE''\<rparr>,
      \<lparr>course_code = ''EEL 4751'', full_description = ''EEL 4751 Systems'', majors = ''EE''\<rparr>]
   \<and> parse_courses ''EEL 3000 Intro\<newline>more text'' = []"
proof -
  let ?t = "''EEL 3000 Intro\<newline>EEL 4750 Signals\<newline>EE\<newline>EEL 4751 Systems''"
  have s: "split_lines ?t = [''EEL 3000 Intro''] @ ''EEL 4750 Signals'' # [''EE'', ''EEL 4751 Systems'']"
    by code_simp
  have m: "\<forall>l \<in> set [''EEL 3000 Intro'']. \<not> marker_line l"
    unfolding marker_line_def by code_simp
  have c: "code_line ''EEL 4750 Signals''"
    unfolding code_line_def by code_simp
  have r: "parse_lines (''EEL 4750 Signals'' # [''EE'', ''EEL 4751 Systems'']) =
     [\<lparr>course_code = ''EEL 4750'', full_description = ''EEL 4750 Signals'', majors = ''EE''\<rparr>,
      \<lparr>course_code = ''EEL 4751'', full_description = ''EEL 4751 Systems'', majors = ''EE''\<rparr>]"
    by code_simp
  have n: "\<forall>l \<in> set (split_lines ''EEL 3000 Intro\<newline>more text''). \<not> marker_line l"
    unfolding marker_line_def by code_simp
  from unmarked_blocks_discarded [of ?t "[''EEL 3000 Intro'']" "''EEL 4750 Signals''"
      "[''EE'', ''EEL 4751 Systems'']"] s m c
  have "parse_courses ?t = parse_lines (''EEL 4750 Signals'' # [''EE'', ''EEL 4751 Systems''])"
    by blast
  moreover from unmarked_blocks_discarded [of "''EEL 3000 Intro\<newline>more text''" "[]" "[]" "[]"] n
  have "parse_courses ''EEL 3000 Intro\<newline>more text'' = []" by blast
  ultimately show ?thesis using r by simp
qed

text \<open>
  The claim as stated fails: a block whose course-code line comes before the first
  marker is committed, under the marker that follows it, when that marker comes before
  the next course-code line.
\<close>

theorem block_before_marker_counterexample:
  "parse_courses ''EEL 4750 Signals\<newline>EE\<newline>EEL 4751 Systems'' =
     [\<lparr>course_code = ''EEL 4750'', full_description = ''EEL 4750 Signals'', majors = ''EE''\<rparr>,
      \<lparr>course_code = ''EEL 4751'', full_description = ''EEL 4751 Systems'', majors = ''EE''\<rparr>]"
  by code_simp

lemma body_keeps_open:
  "\<forall>l \<in> set body. \<not> code_line l \<Longrightarrow> current_course st = Some c \<Longrightarrow>
   courses (foldl seg_step st body) = courses st \<and>
   (\<exists>c'. current_course (foldl seg_step st body) = Some c' \<and> course_code c' = course_code c)"
proof (induction body arbitrary: st c)
  case Nil
  then show ?case by simp
next
  case (Cons l body)
  have "courses (seg_step st l) = courses st \<and>
        (\<exists>c'. current_course (seg_step st l) = Some c' \<and> course_code c' = course_code c)"
  proof (cases "marker_line l")
    case True
    with Cons.prems show ?thesis by (simp add: seg_step_marker)
  next
    case False
    moreover from Cons.prems have "\<not> code_line l" by simp
    ultimately show ?thesis
      using seg_step_other(1) [of l st] seg_step_other(4) [OF _ _ Cons.prems(2), of l]
      by simp
  qed
  then obtain c' where s: "courses (seg_step st l) = courses st"
    "current_course (seg_step st l) = Some c'" "course_code c' = course_code c"
    by blast
  from Cons.prems have "\<forall>l \<in> set body. \<not> code_line l" by simp
  from Cons.IH [OF this s(2)] s show ?case by simp
qed

lemma last_marker_state:
  "current_majors (foldl seg_step seg_init ls) = last_marker ls"
  by (simp add: current_majors_foldl last_marker_def seg_init_def)

text \<open>
  Claim C5 (which majors a record carries), as amended. A committed record carries the
  current majors in effect when it is closed out. For a record opened by the course-code
  line \<open>L\<close> and followed by the lines \<open>body\<close>, none of them a course-code line, up to
  the next course-code line or the end of the input: if a marker line has been seen by
  then, the record is committed right after the records of the lines before \<open>L\<close>, with
  the code of \<open>L\<close> and with the last marker line seen up to the end of \<open>body\<close> as its
  majors, so a marker line inside \<open>body\<close> replaces the majors in effect at \<open>L\<close>.
\<close>

theorem majors_at_close:
  "split_lines text = pre @ L # body @ rest \<and> code_line L \<and>
   (\<forall>l \<in> set body. \<not> code_line l) \<and> (rest = [] \<or> code_line (hd rest)) \<and>
   last_marker (pre @ L # body) \<noteq> []
   \<longrightarrow> (\<exists>r after. parse_courses text = parse_lines pre @ r # after \<and>
          course_code r = the (code_at True (strip L)) \<and>
          majors r = last_marker (pre @ L # body))"
proof
  assume h: "split_lines text = pre @ L # body @ rest \<and> code_line L \<and>
   (\<forall>l \<in> set body. \<not> code_line l) \<and> (rest = [] \<or> code_line (hd rest)) \<and>
   last_marker (pre @ L # body) \<noteq> []"
  let ?m = "last_marker (pre @ L # body)"
  let ?st0 = "foldl seg_step seg_init pre"
  let ?st1 = "seg_step ?st0 L"
  let ?st2 = "foldl seg_step ?st1 body"
  let ?c1 = "\<lparr>course_code = the (code_at True (strip L)), full_description = strip L,
             majors = current_majors ?st0\<rparr>"
  have st1: "courses ?st1 = parse_lines pre" "current_course ?st1 = Some ?c1"
    using h by (simp_all add: seg_step_code parse_lines_def)
  from h have nb: "\<forall>l \<in> set body. \<not> code_line l" by simp
  from body_keeps_open [OF nb st1(2)] obtain c' where
    c': "courses ?st2 = courses ?st1" "current_course ?st2 = Some c'"
        "course_code c' = the (code_at True (strip L))"
    by auto
  have "?st2 = foldl seg_step seg_init (pre @ L # body)" by simp
  then have m: "current_majors ?st2 = ?m" by (simp only: last_marker_state)
  let ?r = "c'\<lparr>majors := ?m\<rparr>"
  have cm: "commit ?st2 = parse_lines pre @ [?r]"
    using h c' m st1(1) by (simp add: commit_def)
  have "\<exists>after. parse_courses text = parse_lines pre @ ?r # after"
  proof (cases rest)
    case Nil
    with h have "parse_courses text = commit ?st2"
      by (simp add: parse_courses_def parse_lines_def)
    with cm show ?thesis by simp
  next
    case (Cons L' rest')
    with h have cl: "code_line L'" by simp
    let ?st3 = "seg_step ?st2 L'"
    have c3: "courses ?st3 = commit ?st2" using cl by (simp add: seg_step_code)
    obtain ext where "commit (foldl seg_step ?st3 rest') = courses ?st3 @ ext"
      using parse_from_extends by blast
    moreover have "parse_courses text = commit (foldl seg_step ?st3 rest')"
      using h Cons by (simp add: parse_courses_def parse_lines_def)
    ultimately have "parse_courses text = parse_lines pre @ ?r # ext"
      using c3 cm by simp
    then show ?thesis by blast
  qed
  then obtain after where "parse_courses text = parse_lines pre @ ?r # after" by blast
  moreover have "course_code ?r = the (code_at True (strip L))" using c'(3) by simp
  moreover have "majors ?r = ?m" by simp
  ultimately show "\<exists>r after. parse_courses text = parse_lines pre @ r # after \<and>
          course_code r = the (code_at True (strip L)) \<and>
          majors r = last_marker (pre @ L # body)"
    by blast
qed

theorem majors_at_close_witness:
  "last_marker ([''EE''] @ ''EEL 4750 Signals'' # [''and systems'', ''CpE'']) = ''CpE''
   \<and> parse_courses ''EE\<newline>EEL 4750 Signals\<newline>and systems\<newline>CpE\<newline>EEL 4751 Systems'' =
     [\<lparr>course_code = ''EEL 4750'', full_description = ''EEL 4750 Signals and systems'',
       majors = ''CpE''\<rparr>,
      \<lparr>course_code = ''EEL 4751'', full_description = ''EEL 4751 Systems'', majors = ''CpE''\<rparr>]
   \<and> (\<exists>r after.
        parse_courses ''EE\<newline>EEL 4750 Signals\<newline>and systems\<newline>CpE\<newline>EEL 4751 Systems'' =
          parse_lines [''EE''] @ r # after \<and>
        course_code r = the (code_at True (strip ''EEL 4750 Signals'')) \<and>
        majors r = ''CpE'')"
proof -
  let ?t = "''EE\<newline>EEL 4750 Signals\<newline>and systems\<newline>CpE\<newline>EEL 4751 Systems''"
  have s: "split_lines ?t =
      [''EE''] @ ''EEL 4750 Signals'' # [''and systems'', ''CpE''] @ [''EEL 4751 Systems'']"
    by code_simp
  have c: "code_line ''EEL 4750 Signals''" unfolding code_line_def by code_simp
  have b: "\<forall>l \<in> set [''and systems'', ''CpE'']. \<not> code_line l"
    unfolding code_line_def by code_simp
  have r: "[''EEL 4751 Systems''] = [] \<or> code_line (hd [''EEL 4751 Systems''])"
    unfolding code_line_def by code_simp
  have m: "last_marker ([''EE''] @ ''EEL 4750 Signals'' # [''and systems'', ''CpE'']) = ''CpE''"
    unfolding last_marker_def marker_line_def by code_simp
  then have n: "last_marker ([''EE''] @ ''EEL 4750 Signals'' # [''and systems'', ''CpE'']) \<noteq> []"
    by simp
  have ev: "parse_courses ?t =
     [\<lparr>course_code = ''EEL 4750'', full_description = ''EEL 4750 Signals and systems'',
       majors = ''CpE''\<rparr>,
      \<lparr>course_code = ''EEL 4751'', full_description = ''EEL 4751 Systems'', majors = ''CpE''\<rparr>]"
    by code_simp
  from majors_at_close [of ?t "[''EE'']" "''EEL 4750 Signals''" "[''and systems'', ''CpE'']"
      "[''EEL 4751 Systems'']"] s c b r n
  have "\<exists>r after. parse_courses ?t = parse_lines [''EE''] @ r # after \<and>
        course_code r = the (code_at True (strip ''EEL 4750 Signals'')) \<and>
        majors r = last_marker ([''EE''] @ ''EEL 4750 Signals'' # [''and systems'', ''CpE''])"
    by blast
  then have "\<exists>r after. parse_courses ?t = parse_lines [''EE''] @ r # after \<and>
        course_code r = the (code_at True (strip ''EEL 4750 Signals'')) \<and>
        majors r = ''CpE''"
    unfolding m .
  with m ev show ?thesis by blast
qed

text \<open>
  The claim as stated fails: the record opened under the marker \<open>EE\<close> carries \<open>CpE\<close>,
  the marker seen between its text and the next course-code line.
\<close>

theorem majors_at_open_counterexample:
  "parse_courses ''EE\<newline>EEL 4750 Signals\<newline>CpE\<newline>EEL 4751 Systems'' =
     [\<lparr>course_code = ''EEL 4750'', full_description = ''EEL 4750 Signals'', majors = ''CpE''\<rparr>,
      \<lparr>course_code = ''EEL 4751'', full_description = ''EEL 4751 Systems'', majors = ''CpE''\<rparr>]"
  by code_simp

section \<open>Dependency graph\<close>

lemma search_courses_by_major_filter:
  "search_courses_by_major cs major = filter (\<lambda>c. contains (majors c) major) cs"
  by (induction cs) simp_all

lemma find_code:
  "p \<in> set (map course_code cs) \<Longrightarrow>
   \<exists>pc. find (\<lambda>c. course_code c = p) cs = Some pc \<and> course_code pc = p"
  by (induction cs) auto

lemma prereq_step_edges:
  "g_edges (prereq_step cs code st p) =
     g_edges st @ (if p \<in> set (map course_code cs) then [mk_edge p code] else [])"
  by (auto simp: prereq_step_def Let_def split: option.splits)

lemma prereq_step_unknown:
  "p \<notin> set (map course_code cs) \<Longrightarrow> prereq_step cs code st p = st"
  by (simp add: prereq_step_def)

lemma prereq_step_known_old:
  "p \<in> set (map course_code cs) \<Longrightarrow> p \<in> filtered_codes st \<Longrightarrow>
   prereq_step cs code st p = st\<lparr>g_edges := g_edges st @ [mk_edge p code]\<rparr>"
  by (simp add: prereq_step_def Let_def)

lemma prereq_step_known_new:
  assumes "p \<in> set (map course_code cs)" "p \<notin> filtered_codes st"
  shows "\<exists>pc. prereq_step cs code st p =
           st\<lparr>g_edges := g_edges st @ [mk_edge p code],
              g_nodes := g_nodes st @ [prereq_node p pc],
              filtered_codes := insert p (filtered_codes st)\<rparr>"
proof -
  obtain pc where "find (\<lambda>c. course_code c = p) cs = Some pc"
    using find_code [OF assms(1)] by blast
  with assms have "prereq_step cs code st p =
           st\<lparr>g_edges := g_edges st @ [mk_edge p code],
              g_nodes := g_nodes st @ [prereq_node p pc],
              filtered_codes := insert p (filtered_codes st)\<rparr>"
    by (simp add: prereq_step_def Let_def)
  then show ?thesis by blast
qed

lemma prereq_step_inv:
  assumes "graph_inv cs base st"
  shows "graph_inv cs base (prereq_step cs code st p)"
proof (cases "p \<in> set (map course_code cs)")
  case False
  with assms show ?thesis by (simp add: prereq_step_unknown)
next
  case known: True
  show ?thesis
  proof (cases "p \<in> filtered_codes st")
    case True
    with known assms show ?thesis
      by (auto simp: prereq_step_known_old graph_inv_def mk_edge_def)
  next
    case False
    from prereq_step_known_new [OF known False] obtain pc where
      s: "prereq_step cs code st p =
           st\<lparr>g_edges := g_edges st @ [mk_edge p code],
              g_nodes := g_nodes st @ [prereq_node p pc],
              filtered_codes := insert p (filtered_codes st)\<rparr>"
      by blast
    from assms obtain extra where
      f: "filtered_codes st = set (map n_id (g_nodes st))" and
      e: "g_nodes st = base @ extra" "distinct (map n_id extra)"
         "set (map n_id extra) \<inter> set (map n_id base) = {}"
         "\<forall>n \<in> set extra. n_group n = ''prerequisite'' \<and>
                           n_id n \<in> set (map course_code cs) \<and>
                           n_id n \<in> set (map e_from (g_edges st))" and
      d: "\<forall>e \<in> set (g_edges st). e_from e \<in> set (map course_code cs) \<and>
                              e_from e \<in> filtered_codes st"
      unfolding graph_inv_def by blast
    have np: "p \<notin> set (map n_id base)" "p \<notin> set (map n_id extra)"
      using False f e(1) by auto
    let ?extra = "extra @ [prereq_node p pc]"
    have "g_nodes st @ [prereq_node p pc] = base @ ?extra" using e(1) by simp
    moreover have "distinct (map n_id ?extra)"
      using e(2) np(2) by (simp add: prereq_node_def)
    moreover have "set (map n_id ?extra) \<inter> set (map n_id base) = {}"
      using e(3) np(1) by (simp add: prereq_node_def)
    moreover have "\<forall>n \<in> set ?extra. n_group n = ''prerequisite'' \<and>
                           n_id n \<in> set (map course_code cs) \<and>
                           n_id n \<in> set (map e_from (g_edges st @ [mk_edge p code]))"
      using e(4) known by (auto simp: prereq_node_def mk_edge_def)
    moreover have "insert p (filtered_codes st) =
        set (map n_id (g_nodes st @ [prereq_node p pc]))"
      using f by (simp add: prereq_node_def)
    moreover have "\<forall>e \<in> set (g_edges st @ [mk_edge p code]).
        e_from e \<in> set (map course_code cs) \<and> e_from e \<in> insert p (filtered_codes st)"
      using d known by (simp add: mk_edge_def)
    ultimately show ?thesis
      unfolding graph_inv_def s by (simp del: set_map map_append)
  qed
qed

lemma course_step_inv: "graph_inv cs base st \<Longrightarrow> graph_inv cs base (course_step cs st c)"
proof -
  have "graph_inv cs base st \<Longrightarrow> graph_inv cs base (foldl (prereq_step cs code) st ps)"
    for code ps st
    by (induction ps arbitrary: st) (simp_all add: prereq_step_inv)
  then show "graph_inv cs base st \<Longrightarrow> graph_inv cs base (course_step cs st c)"
    by (simp add: course_step_def)
qed

lemma foldl_course_step_inv:
  "graph_inv cs base st \<Longrightarrow> graph_inv cs base (foldl (course_step cs) st fs)"
  by (induction fs arbitrary: st) (simp_all add: course_step_inv)

lemma course_step_edges:
  "g_edges (course_step cs st c) =
     g_edges st @ prereq_edges (set (map course_code cs)) (course_code c)
                    (parse_prerequisites (full_description c))"
proof -
  have "g_edges (foldl (prereq_step cs code) st ps) =
          g_edges st @ prereq_edges (set (map course_code cs)) code ps" for code ps st
    by (induction ps arbitrary: st) (simp_all add: prereq_step_edges)
  then show ?thesis by (simp add: course_step_def)
qed

lemma foldl_course_step_edges:
  "g_edges (foldl (course_step cs) st fs) =
     g_edges st @ all_edges (set (map course_code cs)) fs"
  by (induction fs arbitrary: st) (simp_all add: course_step_edges)

lemma by_major_edges:
  "edges (get_course_graph_by_major cs major) =
     all_edges (set (map course_code cs)) (search_courses_by_major cs major)"
  by (simp add: get_course_graph_by_major_def Let_def foldl_course_step_edges)

lemma by_major_inv:
  "\<exists>st. get_course_graph_by_major cs major = \<lparr>nodes = g_nodes st, edges = g_edges st\<rparr> \<and>
        graph_inv cs (map course_node (search_courses_by_major cs major)) st"
proof -
  let ?f = "search_courses_by_major cs major"
  let ?st0 = "\<lparr>g_nodes = map course_node ?f, g_edges = [],
                filtered_codes = set (map course_code ?f)\<rparr>"
  have "graph_inv cs (map course_node ?f) ?st0"
    by (simp add: graph_inv_def course_node_def comp_def)
  then have "graph_inv cs (map course_node ?f) (foldl (course_step cs) ?st0 ?f)"
    by (rule foldl_course_step_inv)
  then show ?thesis
    by (auto simp: get_course_graph_by_major_def Let_def)
qed


lemma prereq_edges_pairs:
  "map (\<lambda>e. (e_from e, e_to e)) (prereq_edges codes code ps) =
     map (\<lambda>p. (p, code)) (filter (\<lambda>p. p \<in> codes) ps)"
  by (induction ps) (simp_all add: mk_edge_def)

lemma all_edges_to:
  "e \<in> set (all_edges codes cs) \<Longrightarrow> e_to e \<in> set (map course_code cs)"
proof (induction cs)
  case Nil
  then show ?case by simp
next
  case (Cons c cs)
  have "e \<in> set (prereq_edges codes code ps) \<Longrightarrow> e_to e = code" for code ps
    by (induction ps) (auto simp: mk_edge_def split: if_splits)
  with Cons show ?case by auto
qed

lemma all_edges_from:
  "e \<in> set (all_edges codes cs) \<Longrightarrow>
   e_from e \<in> codes \<and> (\<exists>c \<in> set cs. e_from e \<in> set (parse_prerequisites (full_description c)))"
proof (induction cs)
  case Nil
  then show ?case by simp
next
  case (Cons c cs)
  have "e \<in> set (prereq_edges codes code ps) \<Longrightarrow> e_from e \<in> codes \<and> e_from e \<in> set ps"
    for code ps
    by (induction ps) (auto simp: mk_edge_def split: if_splits)
  with Cons show ?case by auto
qed

lemma all_edges_member:
  "c \<in> set cs \<Longrightarrow> p \<in> set (parse_prerequisites (full_description c)) \<Longrightarrow> p \<in> codes \<Longrightarrow>
   mk_edge p (course_code c) \<in> set (all_edges codes cs)"
proof (induction cs)
  case Nil
  then show ?case by simp
next
  case (Cons a cs)
  have "p \<in> set ps \<Longrightarrow> p \<in> codes \<Longrightarrow> mk_edge p code \<in> set (prereq_edges codes code ps)"
    for code ps
    by (induction ps) auto
  with Cons show ?case by auto
qed

lemma all_edges_distinct:
  assumes "distinct (map course_code cs)"
    "\<forall>c \<in> set cs. distinct (parse_prerequisites (full_description c))"
  shows "distinct (map (\<lambda>e. (e_from e, e_to e)) (all_edges codes cs))"
  using assms
proof (induction cs)
  case Nil
  then show ?case by simp
next
  case (Cons c cs)
  have d1: "distinct (map (\<lambda>e. (e_from e, e_to e))
      (prereq_edges codes (course_code c) (parse_prerequisites (full_description c))))"
    using Cons.prems(2) by (simp add: prereq_edges_pairs distinct_map inj_on_def)
  have d2: "distinct (map (\<lambda>e. (e_from e, e_to e)) (all_edges codes cs))"
    using Cons by simp
  have "e_to e = course_code c"
    if "e \<in> set (prereq_edges codes (course_code c) (parse_prerequisites (full_description c)))"
    for e
    using all_edges_to [of e codes "[c]"] that by simp
  moreover have "e_to e \<noteq> course_code c" if "e \<in> set (all_edges codes cs)" for e
    using all_edges_to [OF that] Cons.prems(1) by auto
  ultimately have "(\<lambda>e. (e_from e, e_to e)) `
        set (prereq_edges codes (course_code c) (parse_prerequisites (full_description c)))
      \<inter> (\<lambda>e. (e_from e, e_to e)) ` set (all_edges codes cs) = {}"
    by fastforce
  with d1 d2 show ?case by simp
qed

lemma count_one:
  "distinct (map f xs) \<Longrightarrow> x \<in> set xs \<Longrightarrow> length (filter (\<lambda>y. f y = f x) xs) = 1"
proof (induction xs)
  case Nil
  then show ?case by simp
next
  case (Cons a xs)
  show ?case
  proof (cases "f a = f x")
    case True
    with Cons.prems have "\<forall>y \<in> set xs. f y \<noteq> f x" by (metis distinct.simps(2) image_eqI list.simps(9) set_map)
    then have "filter (\<lambda>y. f y = f x) xs = []" by (simp add: filter_empty_conv)
    with True show ?thesis by simp
  next
    case False
    with Cons show ?thesis by auto
  qed
qed


lemma course_node_ids: "map n_id (map course_node fs) = map course_code fs"
  by (simp add: course_node_def comp_def)

text \<open>
  Claim C6 (well-formed graph), as amended. The graph of the whole model has one node
  per record, in order, duplicates of a code included. When the course codes of the model
  are pairwise distinct and no record's extracted prerequisite list repeats a code, the
  node ids of both graphs (whole model and by major) are pairwise distinct and no
  (from, to) pair occurs twice among their edges.
\<close>

theorem graph_distinct_when_model_distinct:
  "map n_id (nodes (create_course_graph cs)) = map course_code cs
   \<and> (distinct (map course_code cs) \<and>
      (\<forall>c \<in> set cs. distinct (parse_prerequisites (full_description c))) \<longrightarrow>
        distinct (map n_id (nodes (create_course_graph cs))) \<and>
        distinct (map (\<lambda>e. (e_from e, e_to e)) (edges (create_course_graph cs))) \<and>
        distinct (map n_id (nodes (get_course_graph_by_major cs major))) \<and>
        distinct (map (\<lambda>e. (e_from e, e_to e)) (edges (get_course_graph_by_major cs major))))"
proof (intro conjI impI)
  show ids: "map n_id (nodes (create_course_graph cs)) = map course_code cs"
    by (simp add: create_course_graph_def course_node_ids del: map_map)
  assume h: "distinct (map course_code cs) \<and>
      (\<forall>c \<in> set cs. distinct (parse_prerequisites (full_description c)))"
  let ?f = "search_courses_by_major cs major"
  have f: "distinct (map course_code ?f)"
      "\<forall>c \<in> set ?f. distinct (parse_prerequisites (full_description c))"
    using h by (simp_all add: search_courses_by_major_filter distinct_map_filter)
  from h show "distinct (map n_id (nodes (create_course_graph cs)))"
    by (simp only: ids)
  from h show "distinct (map (\<lambda>e. (e_from e, e_to e)) (edges (create_course_graph cs)))"
    by (simp add: create_course_graph_def all_edges_distinct)
  from f show "distinct (map (\<lambda>e. (e_from e, e_to e))
      (edges (get_course_graph_by_major cs major)))"
    by (simp only: by_major_edges all_edges_distinct)
  obtain st where
    g: "get_course_graph_by_major cs major = \<lparr>nodes = g_nodes st, edges = g_edges st\<rparr>" and
    inv: "graph_inv cs (map course_node ?f) st"
    using by_major_inv [of cs major] by blast
  from inv have "\<exists>extra. g_nodes st = map course_node ?f @ extra \<and>
       distinct (map n_id extra) \<and>
       set (map n_id extra) \<inter> set (map n_id (map course_node ?f)) = {}"
    unfolding graph_inv_def by blast
  then obtain extra where
    e: "g_nodes st = map course_node ?f @ extra" "distinct (map n_id extra)"
       "set (map n_id extra) \<inter> set (map n_id (map course_node ?f)) = {}"
    by blast
  have "map n_id (nodes (get_course_graph_by_major cs major)) =
      map course_code ?f @ map n_id extra"
    by (simp add: g e(1) course_node_ids del: map_map)
  moreover have "set (map course_code ?f) \<inter> set (map n_id extra) = {}"
    using e(3) by (simp only: course_node_ids) blast
  ultimately show "distinct (map n_id (nodes (get_course_graph_by_major cs major)))"
    using f(1) e(2) by simp
qed

theorem graph_distinct_when_model_distinct_witness:
  "distinct (map n_id (nodes (get_course_graph_by_major
      (parse_courses
        ''EE\<newline>EEL 3801 Organization. PR: EEL 4750.\<newline>EEL 4768 Architecture. PR: EEL 4750, EEL 3801.\<newline>CpE\<newline>EEL 4750 Signals.\<newline>EE'')
      ''CpE'')))
   \<and> distinct (map (\<lambda>e. (e_from e, e_to e)) (edges (get_course_graph_by_major
      (parse_courses
        ''EE\<newline>EEL 3801 Organization. PR: EEL 4750.\<newline>EEL 4768 Architecture. PR: EEL 4750, EEL 3801.\<newline>CpE\<newline>EEL 4750 Signals.\<newline>EE'')
      ''CpE'')))
   \<and> map n_id (nodes (get_course_graph_by_major
      (parse_courses
        ''EE\<newline>EEL 3801 Organization. PR: EEL 4750.\<newline>EEL 4768 Architecture. PR: EEL 4750, EEL 3801.\<newline>CpE\<newline>EEL 4750 Signals.\<newline>EE'')
      ''CpE'')) = [''EEL 4768'', ''EEL 4750'', ''EEL 3801'']"
proof -
  let ?cs = "parse_courses
        ''EE\<newline>EEL 3801 Organization. PR: EEL 4750.\<newline>EEL 4768 Architecture. PR: EEL 4750, EEL 3801.\<newline>CpE\<newline>EEL 4750 Signals.\<newline>EE''"
  have d: "distinct (map course_code ?cs)" by code_simp
  have p: "\<forall>c \<in> set ?cs. distinct (parse_prerequisites (full_description c))" by code_simp
  have ev: "map n_id (nodes (get_course_graph_by_major ?cs ''CpE'')) =
      [''EEL 4768'', ''EEL 4750'', ''EEL 3801'']"
    by code_simp
  from graph_distinct_when_model_distinct [of ?cs "''CpE''"] d p
  have "distinct (map n_id (nodes (get_course_graph_by_major ?cs ''CpE''))) \<and>
        distinct (map (\<lambda>e. (e_from e, e_to e)) (edges (get_course_graph_by_major ?cs ''CpE'')))"
    by blast
  with ev show ?thesis by blast
qed

text \<open>
  The claim as stated fails: a model with a repeated course code yields two nodes with
  the same id, and a prerequisite clause that names a code twice yields the same edge
  twice, in both graphs.
\<close>

theorem graph_duplicates_counterexample:
  "map n_id (nodes (create_course_graph (parse_courses
      ''EE\<newline>EEL 3801 Organization. PR: EEL 4750 or EEL 4750.\<newline>EEL 3801 Organization, again.\<newline>EEL 4750 Signals.''))) =
     [''EEL 3801'', ''EEL 3801'', ''EEL 4750'']
   \<and> edges (create_course_graph (parse_courses
      ''EE\<newline>EEL 3801 Organization. PR: EEL 4750 or EEL 4750.\<newline>EEL 3801 Organization, again.\<newline>EEL 4750 Signals.'')) =
     [\<lparr>e_from = ''EEL 4750'', e_to = ''EEL 3801'', arrows = ''to''\<rparr>,
      \<lparr>e_from = ''EEL 4750'', e_to = ''EEL 3801'', arrows = ''to''\<rparr>]
   \<and> map n_id (nodes (get_course_graph_by_major (parse_courses
      ''EE\<newline>EEL 3801 Organization. PR: EEL 4750 or EEL 4750.\<newline>EEL 3801 Organization, again.\<newline>EEL 4750 Signals.'') ''EE'')) =
     [''EEL 3801'', ''EEL 3801'', ''EEL 4750'']
   \<and> edges (get_course_graph_by_major (parse_courses
      ''EE\<newline>EEL 3801 Organization. PR: EEL 4750 or EEL 4750.\<newline>EEL 3801 Organization, again.\<newline>EEL 4750 Signals.'') ''EE'') =
     [\<lparr>e_from = ''EEL 4750'', e_to = ''EEL 3801'', arrows = ''to''\<rparr>,
      \<lparr>e_from = ''EEL 4750'', e_to = ''EEL 3801'', arrows = ''to''\<rparr>]"
  by code_simp

text \<open>
  Claim C9 (graph over a subset). In the graph by major, every edge leaves a code of the
  full model and every node has one, so a prerequisite code that matches no record gets
  neither edge nor node. A prerequisite of a course of the subset that is a code of the
  full model outside the subset has exactly one node, that node has the group
  \<open>prerequisite\<close>, and the edge to the course is present. Nodes of the group
  \<open>prerequisite\<close> arise only so. In the graph of the whole model, too, every edge
  leaves a code of the model.
\<close>

theorem subset_graph_prerequisite_nodes:
  "(\<forall>e \<in> set (edges (get_course_graph_by_major cs major)).
      e_from e \<in> set (map course_code cs))
   \<and> (\<forall>n \<in> set (nodes (get_course_graph_by_major cs major)).
      n_id n \<in> set (map course_code cs))
   \<and> (\<forall>c \<in> set (search_courses_by_major cs major).
      \<forall>p \<in> set (parse_prerequisites (full_description c)).
        p \<in> set (map course_code cs) \<and>
        p \<notin> set (map course_code (search_courses_by_major cs major)) \<longrightarrow>
          length (filter (\<lambda>n. n_id n = p) (nodes (get_course_graph_by_major cs major))) = 1 \<and>
          (\<forall>n \<in> set (nodes (get_course_graph_by_major cs major)).
             n_id n = p \<longrightarrow> n_group n = ''prerequisite'') \<and>
          \<lparr>e_from = p, e_to = course_code c, arrows = ''to''\<rparr>
            \<in> set (edges (get_course_graph_by_major cs major)))
   \<and> (\<forall>n \<in> set (nodes (get_course_graph_by_major cs major)).
        n_group n = ''prerequisite'' \<longrightarrow>
          n_id n \<notin> set (map course_code (search_courses_by_major cs major)) \<and>
          (\<exists>c \<in> set (search_courses_by_major cs major).
             n_id n \<in> set (parse_prerequisites (full_description c))))
   \<and> (\<forall>e \<in> set (edges (create_course_graph cs)).
        e_from e \<in> set (map course_code cs))"
proof -
  let ?f = "search_courses_by_major cs major"
  let ?g = "get_course_graph_by_major cs major"
  let ?codes = "set (map course_code cs)"
  obtain st where
    g: "?g = \<lparr>nodes = g_nodes st, edges = g_edges st\<rparr>" and
    inv: "graph_inv cs (map course_node ?f) st"
    using by_major_inv [of cs major] by blast
  from inv have fc: "filtered_codes st = set (map n_id (g_nodes st))"
    and d: "\<forall>e \<in> set (g_edges st). e_from e \<in> ?codes \<and> e_from e \<in> filtered_codes st"
    and "\<exists>extra. g_nodes st = map course_node ?f @ extra \<and>
       distinct (map n_id extra) \<and>
       set (map n_id extra) \<inter> set (map n_id (map course_node ?f)) = {} \<and>
       (\<forall>n \<in> set extra. n_group n = ''prerequisite'' \<and> n_id n \<in> ?codes \<and>
          n_id n \<in> set (map e_from (g_edges st)))"
    unfolding graph_inv_def by blast+
  then obtain extra where
    e: "g_nodes st = map course_node ?f @ extra" "distinct (map n_id extra)"
       "set (map n_id extra) \<inter> set (map n_id (map course_node ?f)) = {}"
       "\<forall>n \<in> set extra. n_group n = ''prerequisite'' \<and> n_id n \<in> ?codes \<and>
          n_id n \<in> set (map e_from (g_edges st))"
    by blast
  have nodes: "nodes ?g = map course_node ?f @ extra" by (simp add: g e(1))
  have sub: "set ?f \<subseteq> set cs" by (simp add: search_courses_by_major_filter)
  have base_group: "n_group n \<noteq> ''prerequisite''" if "n \<in> set (map course_node ?f)" for n
    using that by (auto simp: course_node_def split: if_splits)
  have base_id: "n_id n \<in> set (map course_code ?f)" if "n \<in> set (map course_node ?f)" for n
    using that by (auto simp: course_node_def)
  have c1: "\<forall>e \<in> set (edges ?g). e_from e \<in> ?codes"
    using d by (simp add: g)
  have c2: "\<forall>n \<in> set (nodes ?g). n_id n \<in> ?codes"
  proof
    fix n assume "n \<in> set (nodes ?g)"
    then consider "n \<in> set (map course_node ?f)" | "n \<in> set extra"
      unfolding nodes by auto
    then show "n_id n \<in> ?codes"
    proof cases
      case 1
      with base_id sub show ?thesis by auto
    next
      case 2
      with e(4) show ?thesis by blast
    qed
  qed
  have c3: "\<forall>c \<in> set ?f. \<forall>p \<in> set (parse_prerequisites (full_description c)).
        p \<in> ?codes \<and> p \<notin> set (map course_code ?f) \<longrightarrow>
          length (filter (\<lambda>n. n_id n = p) (nodes ?g)) = 1 \<and>
          (\<forall>n \<in> set (nodes ?g). n_id n = p \<longrightarrow> n_group n = ''prerequisite'') \<and>
          \<lparr>e_from = p, e_to = course_code c, arrows = ''to''\<rparr> \<in> set (edges ?g)"
  proof (intro ballI impI)
    fix c p
    assume c: "c \<in> set ?f" and p: "p \<in> set (parse_prerequisites (full_description c))"
      and k: "p \<in> ?codes \<and> p \<notin> set (map course_code ?f)"
    have edge: "mk_edge p (course_code c) \<in> set (edges ?g)"
      using all_edges_member [OF c p] k by (simp only: by_major_edges)
    then have "p \<in> filtered_codes st" using d by (auto simp: g mk_edge_def)
    then have "p \<in> set (map n_id (nodes ?g))" by (simp only: fc g graph.simps)
    moreover have nb: "\<forall>n \<in> set (map course_node ?f). n_id n \<noteq> p"
      using k base_id by blast
    ultimately obtain x where x: "x \<in> set extra" "n_id x = p"
      unfolding nodes by auto
    have "filter (\<lambda>n. n_id n = p) (map course_node ?f) = []"
      using nb by (simp only: filter_empty_conv)
    moreover have "length (filter (\<lambda>n. n_id n = n_id x) extra) = 1"
      using count_one [OF e(2) x(1)] .
    ultimately have "length (filter (\<lambda>n. n_id n = p) (nodes ?g)) = 1"
      unfolding nodes using x(2) by simp
    moreover have "\<forall>n \<in> set (nodes ?g). n_id n = p \<longrightarrow> n_group n = ''prerequisite''"
      unfolding nodes using nb e(4) by auto
    ultimately show "length (filter (\<lambda>n. n_id n = p) (nodes ?g)) = 1 \<and>
          (\<forall>n \<in> set (nodes ?g). n_id n = p \<longrightarrow> n_group n = ''prerequisite'') \<and>
          \<lparr>e_from = p, e_to = course_code c, arrows = ''to''\<rparr> \<in> set (edges ?g)"
      using edge by (simp add: mk_edge_def)
  qed
  have c4: "\<forall>n \<in> set (nodes ?g). n_group n = ''prerequisite'' \<longrightarrow>
          n_id n \<notin> set (map course_code ?f) \<and>
          (\<exists>c \<in> set ?f. n_id n \<in> set (parse_prerequisites (full_description c)))"
  proof (intro ballI impI)
    fix n assume n: "n \<in> set (nodes ?g)" and gr: "n_group n = ''prerequisite''"
    with base_group have x: "n \<in> set extra" unfolding nodes by auto
    then have "n_id n \<in> set (map n_id extra)" by simp
    with e(3) have out: "n_id n \<notin> set (map course_code ?f)"
      by (simp only: course_node_ids) blast
    from x e(4) obtain ed where "ed \<in> set (g_edges st)" "e_from ed = n_id n" by auto
    then have "ed \<in> set (all_edges ?codes ?f)" "e_from ed = n_id n"
      using by_major_edges [of cs major] by (simp_all add: g)
    with all_edges_from [of ed ?codes ?f]
    have "\<exists>c \<in> set ?f. n_id n \<in> set (parse_prerequisites (full_description c))" by simp
    with out show "n_id n \<notin> set (map course_code ?f) \<and>
          (\<exists>c \<in> set ?f. n_id n \<in> set (parse_prerequisites (full_description c)))"
      by blast
  qed
  have c5: "\<forall>e \<in> set (edges (create_course_graph cs)). e_from e \<in> ?codes"
    using all_edges_from [of _ ?codes cs] by (simp add: create_course_graph_def)
  show ?thesis using c1 c2 c3 c4 c5 by blast
qed


theorem subset_graph_prerequisite_nodes_witness:
  "length (filter (\<lambda>n. n_id n = ''EEL 4750'')
     (nodes (get_course_graph_by_major
        [\<lparr>course_code = ''EEL 3801'', full_description = ''EEL 3801 A. PR: EEL 4750, MAC 2311.'',
          majors = ''EE''\<rparr>,
         \<lparr>course_code = ''EEL 4768'', full_description = ''EEL 4768 B. PR: EEL 4750.'',
          majors = ''EE''\<rparr>,
         \<lparr>course_code = ''EEL 4750'', full_description = ''EEL 4750 C.'', majors = ''CpE''\<rparr>]
        ''EE''))) = 1
   \<and> \<lparr>e_from = ''EEL 4750'', e_to = ''EEL 4768'', arrows = ''to''\<rparr>
       \<in> set (edges (get_course_graph_by_major
        [\<lparr>course_code = ''EEL 3801'', full_description = ''EEL 3801 A. PR: EEL 4750, MAC 2311.'',
          majors = ''EE''\<rparr>,
         \<lparr>course_code = ''EEL 4768'', full_description = ''EEL 4768 B. PR: EEL 4750.'',
          majors = ''EE''\<rparr>,
         \<lparr>course_code = ''EEL 4750'', full_description = ''EEL 4750 C.'', majors = ''CpE''\<rparr>]
        ''EE''))"
proof -
  let ?c = "\<lparr>course_code = ''EEL 4768'', full_description = ''EEL 4768 B. PR: EEL 4750.'',
          majors = ''EE''\<rparr>"
  let ?cs = "[\<lparr>course_code = ''EEL 3801'', full_description = ''EEL 3801 A. PR: EEL 4750, MAC 2311.'',
          majors = ''EE''\<rparr>, ?c,
         \<lparr>course_code = ''EEL 4750'', full_description = ''EEL 4750 C.'', majors = ''CpE''\<rparr>]"
  have f: "search_courses_by_major ?cs ''EE'' =
      [\<lparr>course_code = ''EEL 3801'', full_description = ''EEL 3801 A. PR: EEL 4750, MAC 2311.'',
          majors = ''EE''\<rparr>, ?c]"
    by code_simp
  have c: "?c \<in> set (search_courses_by_major ?cs ''EE'')" unfolding f by simp
  have "parse_prerequisites (full_description ?c) = [''EEL 4750'']" by code_simp
  then have p: "''EEL 4750'' \<in> set (parse_prerequisites (full_description ?c))" by simp
  have k: "''EEL 4750'' \<in> set (map course_code ?cs) \<and>
      ''EEL 4750'' \<notin> set (map course_code (search_courses_by_major ?cs ''EE''))"
    unfolding f by simp
  from subset_graph_prerequisite_nodes [of ?cs "''EE''"]
  have "\<forall>c \<in> set (search_courses_by_major ?cs ''EE'').
      \<forall>p \<in> set (parse_prerequisites (full_description c)).
        p \<in> set (map course_code ?cs) \<and>
        p \<notin> set (map course_code (search_courses_by_major ?cs ''EE'')) \<longrightarrow>
          length (filter (\<lambda>n. n_id n = p) (nodes (get_course_graph_by_major ?cs ''EE''))) = 1 \<and>
          (\<forall>n \<in> set (nodes (get_course_graph_by_major ?cs ''EE'')).
             n_id n = p \<longrightarrow> n_group n = ''prerequisite'') \<and>
          \<lparr>e_from = p, e_to = course_code c, arrows = ''to''\<rparr>
            \<in> set (edges (get_course_graph_by_major ?cs ''EE''))"
    by (elim conjE)
  from this [rule_format, OF c p k] show ?thesis by simp
qed

section \<open>Prerequisite extractor\<close>

lemma code_at_shape:
  assumes "code_at b s = Some m"
  shows "\<exists>l ws d suf rest. m = l @ ws @ d @ suf \<and> s = m @ rest \<and> length l = 3 \<and>
           list_all is_upper l \<and> list_all is_space ws \<and> (b \<longrightarrow> ws \<noteq> []) \<and>
           length d = 4 \<and> list_all is_digit d \<and>
           (suf = [] \<or> (\<exists>c. suf = [c] \<and> is_upper c))"
proof -
  let ?l = "take 3 s" and ?r1 = "drop 3 s"
  let ?ws = "takeWhile is_space ?r1" and ?r2 = "dropWhile is_space ?r1"
  let ?d = "take 4 ?r2" and ?r3 = "drop 4 ?r2"
  let ?suf = "case ?r3 of [] \<Rightarrow> [] | c # _ \<Rightarrow> if is_upper c then [c] else []"
  from assms have c: "length ?l = 3" "list_all is_upper ?l" "b \<longrightarrow> ?ws \<noteq> []"
    "length ?d = 4" "list_all is_digit ?d" and m: "m = ?l @ ?ws @ ?d @ ?suf"
    by (auto simp: code_at_def Let_def split: if_splits)
  have suf: "?suf = [] \<or> (\<exists>c. ?suf = [c] \<and> is_upper c)"
    by (auto split: list.splits)
  have "\<exists>rest. ?r3 = ?suf @ rest" by (auto split: list.splits)
  then obtain rest where r3: "?r3 = ?suf @ rest" by blast
  have "s = ?l @ ?r1" by simp
  also have "?r1 = ?ws @ ?r2" by simp
  also have "?r2 = ?d @ ?r3" by simp
  finally have "s = ?l @ ?ws @ ?d @ ?suf @ rest" using r3 by simp
  then have s: "s = m @ rest" using m by simp
  have ws: "list_all is_space ?ws"
    by (simp add: list_all_iff) (meson set_takeWhileD)
  from m s c suf ws show ?thesis by blast
qed

lemma code_at_take: "code_at b s = Some m \<Longrightarrow> m @ drop (length m) s = s"
  using code_at_shape [of b s m] by auto

lemma find_codes_Cons:
  "find_codes s = m # ms \<Longrightarrow>
   \<exists>gap rest. s = gap @ m @ rest \<and> find_codes rest = ms \<and> code_at False (m @ rest) = Some m \<and>
     (\<forall>i < length gap. code_at False (drop i s) = None)"
proof (induction s rule: find_codes.induct)
  case 1
  then show ?case by simp
next
  case (2 c cs)
  show ?case
  proof (cases "code_at False (c # cs)")
    case None
    with "2.prems" have "find_codes cs = m # ms" by simp
    from "2.IH"(1) [OF None this] obtain gap rest where
      g: "cs = gap @ m @ rest" "find_codes rest = ms" "code_at False (m @ rest) = Some m"
         "\<forall>i < length gap. code_at False (drop i cs) = None"
      by blast
    have "\<forall>i < length (c # gap). code_at False (drop i (c # cs)) = None"
    proof (intro allI impI)
      fix i assume "i < length (c # gap)"
      then show "code_at False (drop i (c # cs)) = None"
        using None g(4) by (cases i) simp_all
    qed
    moreover have "c # cs = (c # gap) @ m @ rest" using g(1) by simp
    ultimately show ?thesis using g(2,3) by blast
  next
    case (Some m')
    with "2.prems" have e1: "m' = m" by simp
    with Some "2.prems" have e: "m' = m" "find_codes (drop (length m) (c # cs)) = ms"
      by simp_all
    have "c # cs = [] @ m @ drop (length m) (c # cs)"
      using code_at_take [OF Some] e(1) by simp
    moreover have "code_at False (m @ drop (length m) (c # cs)) = Some m"
      using code_at_take [OF Some] Some e(1) by simp
    ultimately show ?thesis using e(2) by (metis length_0_conv not_less_zero list.size(3))
  qed
qed

lemma find_codes_Nil:
  "find_codes s = [] \<Longrightarrow> i \<le> length s \<Longrightarrow> code_at False (drop i s) = None"
proof (induction s arbitrary: i rule: find_codes.induct)
  case 1
  then show ?case by (simp add: code_at_def)
next
  case (2 c cs)
  from "2.prems"(1) have n: "code_at False (c # cs) = None"
    by (cases "code_at False (c # cs)") simp_all
  with "2.prems"(1) have "find_codes cs = []" by simp
  from "2.IH"(1) [OF n this] "2.prems"(2) n show ?case by (cases i) simp_all
qed

lemma not_space_dot: "\<not> is_space CHR ''.''"
  by (simp add: is_space_def)

lemma clause_at_shape:
  assumes "clause_at h s = Some g"
  shows "\<exists>hdr ws post. s = hdr @ ws @ g @ post \<and> length hdr = length h \<and>
           lower hdr = lower h \<and> list_all is_space ws \<and> g \<noteq> [] \<and> CHR ''.'' \<notin> set g \<and>
           (post = [] \<or> (\<exists>post'. post = CHR ''.'' # post'))"
proof -
  let ?hdr = "take (length h) s" and ?r = "drop (length h) s"
  let ?w = "takeWhile is_space ?r" and ?r' = "dropWhile is_space ?r"
  let ?body = "takeWhile (\<lambda>c. c \<noteq> CHR ''.'') ?r'"
  let ?post = "dropWhile (\<lambda>c. c \<noteq> CHR ''.'') ?r'"
  from assms have ci: "length h \<le> length s" "lower ?hdr = lower h"
    by (auto simp: clause_at_def ci_prefix_def split: if_splits)
  then have len: "length ?hdr = length h" by simp
  have sp: "list_all is_space ?w"
    by (simp add: list_all_iff) (meson set_takeWhileD)
  have post: "?post = [] \<or> (\<exists>post'. ?post = CHR ''.'' # post')"
  proof (cases ?post)
    case Nil
    then show ?thesis by simp
  next
    case (Cons x xs)
    then have "\<not> x \<noteq> CHR ''.''" using hd_dropWhile [of "\<lambda>c. c \<noteq> CHR ''.''" ?r'] by force
    with Cons show ?thesis by simp
  qed
  have split: "s = ?hdr @ ?w @ ?body @ ?post"
  proof -
    have "s = ?hdr @ ?r" by simp
    also have "?r = ?w @ ?r'" by simp
    also have "?r' = ?body @ ?post" by simp
    finally show ?thesis by simp
  qed
  show ?thesis
  proof (cases "?body = []")
    case False
    with assms have "g = ?body" by (simp add: clause_at_def Let_def ci_prefix_def split: if_splits)
    moreover have "CHR ''.'' \<notin> set ?body" by (auto dest: set_takeWhileD)
    ultimately show ?thesis using False split len ci(2) sp post by metis
  next
    case True
    with assms have w: "?w \<noteq> []" and g: "g = [last ?w]"
      by (simp_all add: clause_at_def Let_def ci_prefix_def split: if_splits)
    have bw: "butlast ?w @ g = ?w" using w g by simp
    from split have "s = ?hdr @ ?w @ [] @ ?post" by (simp only: True)
    then have "s = ?hdr @ (butlast ?w @ g) @ ?post" by (simp only: bw append_Nil)
    then have "s = ?hdr @ butlast ?w @ g @ ?post" by (simp only: append_assoc)
    moreover have "list_all is_space (butlast ?w)"
      using sp by (simp add: list_all_iff) (meson in_set_butlastD)
    moreover have "is_space (last ?w)" using sp w by (simp add: list_all_iff)
    then have "CHR ''.'' \<notin> set g" using g not_space_dot by auto
    ultimately show ?thesis using g len ci(2) post by blast
  qed
qed

lemma search_clause_leftmost:
  "search_clause h t = Some g \<Longrightarrow>
   \<exists>pre s. t = pre @ s \<and> clause_at h s = Some g \<and>
     (\<forall>pre' s'. t = pre' @ s' \<and> length pre' < length pre \<longrightarrow> clause_at h s' = None)"
proof (induction t)
  case Nil
  then have "[] = [] @ [] \<and> clause_at h [] = Some g" by simp
  then show ?case by (metis length_0_conv not_less_zero list.size(3))
next
  case (Cons c cs)
  show ?case
  proof (cases "clause_at h (c # cs)")
    case (Some g')
    with Cons.prems have "c # cs = [] @ (c # cs) \<and> clause_at h (c # cs) = Some g" by simp
    then show ?thesis by (metis length_0_conv not_less_zero list.size(3))
  next
    case None
    with Cons.prems have "search_clause h cs = Some g" by simp
    from Cons.IH [OF this] obtain pre s where
      p: "cs = pre @ s" "clause_at h s = Some g"
         "\<forall>pre' s'. cs = pre' @ s' \<and> length pre' < length pre \<longrightarrow> clause_at h s' = None"
      by blast
    have "\<forall>pre' s'. c # cs = pre' @ s' \<and> length pre' < length (c # pre) \<longrightarrow>
            clause_at h s' = None"
    proof (intro allI impI)
      fix pre' s' assume a: "c # cs = pre' @ s' \<and> length pre' < length (c # pre)"
      show "clause_at h s' = None"
      proof (cases pre')
        case Nil
        with a None show ?thesis by simp
      next
        case (Cons x xs)
        with a have "cs = xs @ s' \<and> length xs < length pre" by simp
        with p(3) show ?thesis by blast
      qed
    qed
    moreover have "c # cs = (c # pre) @ s" using p(1) by simp
    ultimately show ?thesis using p(2) by blast
  qed
qed


text \<open>
  Claim C3 (prerequisite extractor). The headers are tried in the order \<open>PR:\<close>,
  \<open>Prerequisite(s):\<close>, \<open>Prerequisites:\<close>, and the first one that matches supplies the
  clause; the others are not looked at. A clause found for a header \<open>h\<close> stands in the
  text right after an occurrence of \<open>h\<close>, up to the case of letters, and whitespace; it
  is not empty, contains no period and ends at the next period or at the end of the text;
  and the header pattern matches at no earlier position. The codes found in a text are
  the matches of the code grammar from left to right, each search resuming where the
  previous match ended: the first code is a match of the grammar (three capitals,
  whitespace, four digits, an optional capital) preceded by a gap in which no match
  starts, and the remaining codes are those found in the rest; nothing is found only when
  no position has a match. Repeated codes are kept. The example of the specification
  evaluates to \<open>EEE 3307C\<close> and \<open>EEL 4750\<close>.
\<close>

theorem parse_prerequisites_first_clause:
  "parse_prerequisites t =
     (case search_clause ''PR:'' t of
        Some g \<Rightarrow> find_codes (strip g)
      | None \<Rightarrow>
          (case search_clause ''Prerequisite(s):'' t of
             Some g \<Rightarrow> find_codes (strip g)
           | None \<Rightarrow>
               (case search_clause ''Prerequisites:'' t of
                  Some g \<Rightarrow> find_codes (strip g)
                | None \<Rightarrow> [])))
   \<and> (search_clause h t = Some g \<longrightarrow>
        (\<exists>pre hdr ws post.
           t = pre @ hdr @ ws @ g @ post \<and> length hdr = length h \<and> lower hdr = lower h \<and>
           list_all is_space ws \<and> g \<noteq> [] \<and> CHR ''.'' \<notin> set g \<and>
           (post = [] \<or> (\<exists>post'. post = CHR ''.'' # post')) \<and>
           (\<forall>pre' s'. t = pre' @ s' \<and> length pre' < length pre \<longrightarrow>
              clause_at h s' = None)))
   \<and> (find_codes s = m # ms \<longrightarrow>
        (\<exists>gap rest.
           s = gap @ m @ rest \<and> find_codes rest = ms \<and>
           (\<forall>i < length gap. code_at False (drop i s) = None) \<and>
           (\<exists>l ws d suf.
              m = l @ ws @ d @ suf \<and> length l = 3 \<and> list_all is_upper l \<and>
              list_all is_space ws \<and> length d = 4 \<and> list_all is_digit d \<and>
              (suf = [] \<or> (\<exists>c. suf = [c] \<and> is_upper c)))))
   \<and> (find_codes s = [] \<longrightarrow> (\<forall>i \<le> length s. code_at False (drop i s) = None))
   \<and> parse_prerequisites ''...PR: EEE 3307C, EEL 4750. Other text PR: IGNORED 9999.'' =
       [''EEE 3307C'', ''EEL 4750'']
   \<and> parse_prerequisites ''PR: EEL 4750 or EEL 4750.'' = [''EEL 4750'', ''EEL 4750'']"
proof (intro conjI impI)
  show "parse_prerequisites t =
     (case search_clause ''PR:'' t of
        Some g \<Rightarrow> find_codes (strip g)
      | None \<Rightarrow>
          (case search_clause ''Prerequisite(s):'' t of
             Some g \<Rightarrow> find_codes (strip g)
           | None \<Rightarrow>
               (case search_clause ''Prerequisites:'' t of
                  Some g \<Rightarrow> find_codes (strip g)
                | None \<Rightarrow> [])))"
    by (simp add: parse_prerequisites_def pr_patterns_def split: option.splits)
next
  assume a: "search_clause h t = Some g"
  from search_clause_leftmost [OF a] obtain pre s0 where
    p: "t = pre @ s0" "clause_at h s0 = Some g"
       "\<forall>pre' s'. t = pre' @ s' \<and> length pre' < length pre \<longrightarrow> clause_at h s' = None"
    by blast
  from clause_at_shape [OF p(2)] obtain hdr ws post where
    q: "s0 = hdr @ ws @ g @ post" "length hdr = length h" "lower hdr = lower h"
       "list_all is_space ws" "g \<noteq> []" "CHR ''.'' \<notin> set g"
       "post = [] \<or> (\<exists>post'. post = CHR ''.'' # post')"
    by blast
  from p(1) q(1) have "t = pre @ hdr @ ws @ g @ post" by simp
  with p(3) q(2-7) show "\<exists>pre hdr ws post.
           t = pre @ hdr @ ws @ g @ post \<and> length hdr = length h \<and> lower hdr = lower h \<and>
           list_all is_space ws \<and> g \<noteq> [] \<and> CHR ''.'' \<notin> set g \<and>
           (post = [] \<or> (\<exists>post'. post = CHR ''.'' # post')) \<and>
           (\<forall>pre' s'. t = pre' @ s' \<and> length pre' < length pre \<longrightarrow>
              clause_at h s' = None)"
    by blast
next
  assume a: "find_codes s = m # ms"
  from find_codes_Cons [OF a] obtain gap rest where
    g: "s = gap @ m @ rest" "find_codes rest = ms" "code_at False (m @ rest) = Some m"
       "\<forall>i < length gap. code_at False (drop i s) = None"
    by blast
  from code_at_shape [OF g(3)] have "\<exists>l ws d suf.
              m = l @ ws @ d @ suf \<and> length l = 3 \<and> list_all is_upper l \<and>
              list_all is_space ws \<and> length d = 4 \<and> list_all is_digit d \<and>
              (suf = [] \<or> (\<exists>c. suf = [c] \<and> is_upper c))"
    by blast
  with g(1,2,4) show "\<exists>gap rest.
           s = gap @ m @ rest \<and> find_codes rest = ms \<and>
           (\<forall>i < length gap. code_at False (drop i s) = None) \<and>
           (\<exists>l ws d suf.
              m = l @ ws @ d @ suf \<and> length l = 3 \<and> list_all is_upper l \<and>
              list_all is_space ws \<and> length d = 4 \<and> list_all is_digit d \<and>
              (suf = [] \<or> (\<exists>c. suf = [c] \<and> is_upper c)))"
    by blast
next
  assume "find_codes s = []"
  then show "\<forall>i \<le> length s. code_at False (drop i s) = None"
    using find_codes_Nil by blast
next
  show "parse_prerequisites ''...PR: EEE 3307C, EEL 4750. Other text PR: IGNORED 9999.'' =
       [''EEE 3307C'', ''EEL 4750'']"
    by code_simp
next
  show "parse_prerequisites ''PR: EEL 4750 or EEL 4750.'' = [''EEL 4750'', ''EEL 4750'']"
    by code_simp
qed

theorem parse_prerequisites_first_clause_witness:
  "(\<exists>pre hdr ws post.
      ''...PR: EEE 3307C, EEL 4750. Other text PR: IGNORED 9999.'' =
        pre @ hdr @ ws @ ''EEE 3307C, EEL 4750'' @ post \<and>
      lower hdr = lower ''PR:'' \<and> list_all is_space ws \<and>
      (post = [] \<or> (\<exists>post'. post = CHR ''.'' # post')))
   \<and> (\<exists>gap rest. ''EEE 3307C, EEL 4750'' = gap @ ''EEE 3307C'' @ rest \<and>
         find_codes rest = [''EEL 4750''])
   \<and> parse_prerequisites ''...PR: EEE 3307C, EEL 4750. Other text PR: IGNORED 9999.'' =
       find_codes (strip ''EEE 3307C, EEL 4750'')"
proof -
  let ?t = "''...PR: EEE 3307C, EEL 4750. Other text PR: IGNORED 9999.''"
  have a: "search_clause ''PR:'' ?t = Some ''EEE 3307C, EEL 4750''" by code_simp
  have b: "find_codes ''EEE 3307C, EEL 4750'' = ''EEE 3307C'' # [''EEL 4750'']" by code_simp
  note th = parse_prerequisites_first_clause [of ?t "''PR:''" "''EEE 3307C, EEL 4750''"
      "''EEE 3307C, EEL 4750''" "''EEE 3307C''" "[''EEL 4750'']"]
  from th a have "\<exists>pre hdr ws post.
      ?t = pre @ hdr @ ws @ ''EEE 3307C, EEL 4750'' @ post \<and>
      lower hdr = lower ''PR:'' \<and> list_all is_space ws \<and>
      (post = [] \<or> (\<exists>post'. post = CHR ''.'' # post'))"
    by blast
  moreover from th b have "\<exists>gap rest. ''EEE 3307C, EEL 4750'' = gap @ ''EEE 3307C'' @ rest \<and>
         find_codes rest = [''EEL 4750'']"
    by blast
  moreover from th have "parse_prerequisites ?t =
     (case search_clause ''PR:'' ?t of
        Some g \<Rightarrow> find_codes (strip g)
      | None \<Rightarrow>
          (case search_clause ''Prerequisite(s):'' ?t of
             Some g \<Rightarrow> find_codes (strip g)
           | None \<Rightarrow>
               (case search_clause ''Prerequisites:'' ?t of
                  Some g \<Rightarrow> find_codes (strip g)
                | None \<Rightarrow> [])))"
    by (rule conjunct1)
  then have "parse_prerequisites ?t = find_codes (strip ''EEE 3307C, EEL 4750'')"
    by (simp only: a option.case)
  ultimately show ?thesis by blast
qed

end
